theory Spec2Isabelle
  imports Complex_Main "HOL-Library.Char_ord" "HOL-Library.List_Lexorder"
begin

section \<open>JavaScript values used by the statistics pipeline\<close>

text \<open>
  The program is TypeScript. Token and message counts are integers in practice and are
  modelled as \<open>int\<close> (the code's numbers are doubles, exact for integers up to
  2^53); \<open>costUSD\<close> and the quotients that are rounded are modelled as exact
  rationals, so the rounding of IEEE doubles is not part of the model; where this
  matters is said at the definition.
  A JavaScript \<open>Map\<close> iterates in insertion order and \<open>set\<close> on a key that is
  present keeps the key's position: it is an association list with \<open>mapSet\<close>
  and \<open>mapGet\<close>. A plain object (\<open>Record<string, T>\<close>) read with
  \<open>Object.entries\<close> is the list of its entries in insertion order (model ids are
  not integer-like keys). Strings compare by code unit, which is the lexicographic order
  on \<open>char list\<close>; a \<open>char\<close> stands for a code unit below 256.
\<close>

primrec mapSet :: "'k \<Rightarrow> 'v \<Rightarrow> ('k \<times> 'v) list \<Rightarrow> ('k \<times> 'v) list" where
  "mapSet k v [] = [(k, v)]"
| "mapSet k v (p # ps) = (if fst p = k then (k, v) # ps else p # mapSet k v ps)"

definition mapGet :: "('k \<times> 'v) list \<Rightarrow> 'k \<Rightarrow> 'v option" where
  "mapGet m k = map_of m k"

text \<open>\<open>new Set(xs)\<close> followed by \<open>add\<close>: insertion-ordered, first occurrence kept.\<close>

definition setAdd :: "'a \<Rightarrow> 'a list \<Rightarrow> 'a list" where
  "setAdd x s = (if x \<in> set s then s else s @ [x])"

definition newSet :: "'a list \<Rightarrow> 'a list" where
  "newSet xs = fold setAdd xs []"

text \<open>\<open>s.startsWith(p)\<close>.\<close>

definition startsWith :: "string \<Rightarrow> string \<Rightarrow> bool" where
  "startsWith s p \<longleftrightarrow> take (length p) s = p"


text \<open>A string (or null) used as a condition: null and the empty string are falsy.\<close>

definition truthy :: "string option \<Rightarrow> bool" where
  "truthy e \<longleftrightarrow> (case e of None \<Rightarrow> False | Some s \<Rightarrow> s \<noteq> [])"

text \<open>\<open>String(n)\<close> for an integer, and \<open>padStart(2, "0")\<close>.\<close>

definition digitChar :: "nat \<Rightarrow> char" where
  "digitChar n = char_of (48 + n)"

fun showNat :: "nat \<Rightarrow> string" where
  "showNat n = (if n < 10 then [digitChar n] else showNat (n div 10) @ [digitChar (n mod 10)])"

declare showNat.simps [simp del]

definition String :: "int \<Rightarrow> string" where
  "String n = (if n < 0 then CHR ''-'' # showNat (nat (- n)) else showNat (nat n))"

definition padStart2 :: "string \<Rightarrow> string" where
  "padStart2 s = replicate (2 - length s) (CHR ''0'') @ s"

text \<open>\<open>Math.round(x)\<close>: the nearest integer, a half rounded up.\<close>

definition jsRound :: "rat \<Rightarrow> int" where
  "jsRound x = \<lfloor>x + 1 / 2\<rfloor>"

section \<open>Data model (types.ts, remote-collector.ts, stats.ts)\<close>

record DailyActivity =
  date :: string
  messageCount :: int
  sessionCount :: int
  toolCallCount :: int

record ModelUsage =
  inputTokens :: int
  outputTokens :: int
  cacheReadInputTokens :: int
  cacheCreationInputTokens :: int
  webSearchRequests :: int
  costUSD :: rat
  contextWindow :: int

text \<open>
  \<open>LongestSession\<close>: its \<open>sessionId\<close>, \<open>messageCount\<close> and \<open>timestamp\<close>
  carry the prefix \<open>ls_\<close>, since a record field is a constant of the theory.
\<close>

record LongestSession =
  ls_sessionId :: string
  duration :: int
  ls_messageCount :: int
  ls_timestamp :: string

record ClaudeCodeStats =
  version :: int
  lastComputedDate :: string
  dailyActivity :: "DailyActivity list"
  dailyModelTokens :: "(string \<times> (string \<times> int) list) list"
  modelUsage :: "(string \<times> ModelUsage) list"
  totalSessions :: int
  totalMessages :: int
  longestSession :: LongestSession
  firstSessionDate :: string
  hourCounts :: "(string \<times> int) list"

text \<open>\<open>HistoryEntry\<close>; \<open>pastedContents\<close> is never read and is left out.\<close>

record HistoryEntry =
  display :: string
  timestamp :: int
  project :: string
  sessionId :: string

record CollectedData =
  statsCache :: "ClaudeCodeStats option"
  history :: "HistoryEntry list"
  projects :: "string list"

text \<open>\<open>RemoteData\<close> (remote-collector.ts); fields shared with \<open>CollectedData\<close>
  carry the prefix \<open>r_\<close>.\<close>

record RemoteData =
  host :: string
  r_statsCache :: "ClaudeCodeStats option"
  r_history :: "HistoryEntry list"
  r_projects :: "string list"
  oldestSessionTimestamp :: "string option"

section \<open>Merge engine: \<open>mergeData\<close> (stats.ts)\<close>

text \<open>
  The accumulators of the block guarded by \<open>remotes.length > 0\<close>. A value of
  \<open>mergedDailyActivity\<close> is the triple (messageCount, sessionCount, toolCallCount).
\<close>

record MergeAcc =
  mergedDailyActivity :: "(string \<times> (int \<times> int \<times> int)) list"
  mergedModelUsage :: "(string \<times> ModelUsage) list"
  mergedTotalSessions :: int
  mergedTotalMessages :: int
  earliestDate :: "string option"

definition emptyAcc :: MergeAcc where
  "emptyAcc = \<lparr>mergedDailyActivity = [], mergedModelUsage = [], mergedTotalSessions = 0,
     mergedTotalMessages = 0, earliestDate = None\<rparr>"

text \<open>Lines 39-53: the local cache is written into the empty maps with \<open>set\<close>.\<close>

definition setDay :: "DailyActivity \<Rightarrow> (string \<times> (int \<times> int \<times> int)) list
    \<Rightarrow> (string \<times> (int \<times> int \<times> int)) list" where
  "setDay day m = mapSet (date day) (messageCount day, sessionCount day, toolCallCount day) m"

definition processLocal :: "ClaudeCodeStats option \<Rightarrow> MergeAcc" where
  "processLocal lc = (case lc of
       None \<Rightarrow> emptyAcc
     | Some c \<Rightarrow>
         \<lparr>mergedDailyActivity = fold setDay (dailyActivity c) [],
          mergedModelUsage = fold (\<lambda>(modelId, usage) m. mapSet modelId usage m) (modelUsage c) [],
          mergedTotalSessions = 0 + totalSessions c,
          mergedTotalMessages = 0 + totalMessages c,
          earliestDate = Some (firstSessionDate c)\<rparr>)"

text \<open>Lines 59-72: a date already in the map has the three counts added, a new date is set.\<close>

definition addDay :: "DailyActivity \<Rightarrow> (string \<times> (int \<times> int \<times> int)) list
    \<Rightarrow> (string \<times> (int \<times> int \<times> int)) list" where
  "addDay day m = (case mapGet m (date day) of
       Some (mc, sc, tc) \<Rightarrow>
         mapSet (date day) (mc + messageCount day, sc + sessionCount day, tc + toolCallCount day) m
     | None \<Rightarrow> mapSet (date day) (messageCount day, sessionCount day, toolCallCount day) m)"

text \<open>Lines 74-91. \<open>x || 0\<close> is \<open>x\<close> for a number \<open>x\<close>; a new entry has no
  \<open>webSearchRequests\<close> and \<open>contextWindow\<close>, which the merged cache sets to 0 anyway.\<close>

definition addUsage :: "string \<times> ModelUsage \<Rightarrow> (string \<times> ModelUsage) list
    \<Rightarrow> (string \<times> ModelUsage) list" where
  "addUsage e m = (case e of (modelId, usage) \<Rightarrow>
     (case mapGet m modelId of
        Some existing \<Rightarrow> mapSet modelId
          (existing\<lparr>inputTokens := inputTokens existing + inputTokens usage,
                    outputTokens := outputTokens existing + outputTokens usage,
                    cacheReadInputTokens := cacheReadInputTokens existing + cacheReadInputTokens usage,
                    cacheCreationInputTokens :=
                      cacheCreationInputTokens existing + cacheCreationInputTokens usage,
                    costUSD := costUSD existing + costUSD usage\<rparr>) m
      | None \<Rightarrow> mapSet modelId
          \<lparr>inputTokens = inputTokens usage, outputTokens = outputTokens usage,
           cacheReadInputTokens = cacheReadInputTokens usage,
           cacheCreationInputTokens = cacheCreationInputTokens usage,
           webSearchRequests = 0, costUSD = costUSD usage, contextWindow = 0\<rparr> m))"

text \<open>Lines 96-107: \<open>if (cand) { if (!earliestDate || cand < earliestDate) earliestDate = cand }\<close>.\<close>

definition earlier :: "string option \<Rightarrow> string option \<Rightarrow> string option" where
  "earlier cand e =
     (if truthy cand then
        (if \<not> truthy e \<or> the cand < the e then cand else e)
      else e)"

text \<open>Lines 56-108: one iteration of the loop over the remotes.\<close>

definition mergeRemote :: "RemoteData \<Rightarrow> MergeAcc \<Rightarrow> MergeAcc" where
  "mergeRemote remote acc = (case r_statsCache remote of
       None \<Rightarrow> acc
     | Some c \<Rightarrow>
         \<lparr>mergedDailyActivity = fold addDay (dailyActivity c) (mergedDailyActivity acc),
          mergedModelUsage = fold addUsage (modelUsage c) (mergedModelUsage acc),
          mergedTotalSessions = mergedTotalSessions acc + totalSessions c,
          mergedTotalMessages = mergedTotalMessages acc + totalMessages c,
          earliestDate =
            earlier (oldestSessionTimestamp remote)
              (earlier (Some (firstSessionDate c)) (earliestDate acc))\<rparr>)"

text \<open>Lines 111-130. \<open>nowIso\<close> is \<open>new Date().toISOString()\<close>, read from the clock.\<close>

definition toDailyActivity :: "string \<times> (int \<times> int \<times> int) \<Rightarrow> DailyActivity" where
  "toDailyActivity e = (case e of (d, mc, sc, tc) \<Rightarrow>
     \<lparr>date = d, messageCount = mc, sessionCount = sc, toolCallCount = tc\<rparr>)"

definition buildMergedStatsCache :: "string \<Rightarrow> ClaudeCodeStats option \<Rightarrow> MergeAcc \<Rightarrow> ClaudeCodeStats" where
  "buildMergedStatsCache nowIso lc acc =
     \<lparr>version = 1,
      lastComputedDate = takeWhile (\<lambda>c. c \<noteq> CHR ''T'') nowIso,
      dailyActivity = map toDailyActivity (mergedDailyActivity acc),
      dailyModelTokens = [],
      modelUsage = map (\<lambda>(modelId, usage). (modelId, usage\<lparr>webSearchRequests := 0, contextWindow := 0\<rparr>))
                     (mergedModelUsage acc),
      totalSessions = mergedTotalSessions acc,
      totalMessages = mergedTotalMessages acc,
      longestSession = (case lc of
          Some c \<Rightarrow> longestSession c
        | None \<Rightarrow> \<lparr>ls_sessionId = [], duration = 0, ls_messageCount = 0, ls_timestamp = []\<rparr>),
      firstSessionDate = (if truthy (earliestDate acc) then the (earliestDate acc) else nowIso),
      hourCounts = []\<rparr>"

definition mergeData :: "string \<Rightarrow> CollectedData \<Rightarrow> RemoteData list \<Rightarrow> CollectedData" where
  "mergeData nowIso local remotes =
     \<lparr>statsCache =
        (if length remotes > 0 then
           Some (buildMergedStatsCache nowIso (statsCache local)
                   (fold mergeRemote remotes (processLocal (statsCache local))))
         else statsCache local),
      history = history local @ concat (map r_history remotes),
      projects = fold setAdd (concat (map r_projects remotes)) (newSet (projects local))\<rparr>"

text \<open>
  The daily-activity records that the sources of a merge contribute: the local cache's
  (none when it is absent) followed by those of every remote that has a cache.
  \<open>dayTotal f d acts\<close> adds the count \<open>f\<close> of the records of \<open>acts\<close> dated \<open>d\<close>.
\<close>

definition cacheDays :: "ClaudeCodeStats option \<Rightarrow> DailyActivity list" where
  "cacheDays c = (case c of None \<Rightarrow> [] | Some s \<Rightarrow> dailyActivity s)"

definition contributions :: "CollectedData \<Rightarrow> RemoteData list \<Rightarrow> DailyActivity list" where
  "contributions local remotes =
     cacheDays (statsCache local) @ concat (map (\<lambda>r. cacheDays (r_statsCache r)) remotes)"

definition dayTotal :: "(DailyActivity \<Rightarrow> int) \<Rightarrow> string \<Rightarrow> DailyActivity list \<Rightarrow> int" where
  "dayTotal f d acts = sum_list (map f (filter (\<lambda>a. date a = d) acts))"

definition dayTriple :: "DailyActivity list \<Rightarrow> string \<Rightarrow> int \<times> int \<times> int" where
  "dayTriple acts d =
     (dayTotal messageCount d acts, dayTotal sessionCount d acts, dayTotal toolCallCount d acts)"

definition addTriple :: "int \<times> int \<times> int \<Rightarrow> int \<times> int \<times> int \<Rightarrow> int \<times> int \<times> int" where
  "addTriple v w = (case v of (a, b, c) \<Rightarrow> case w of (x, y, z) \<Rightarrow> (a + x, b + y, c + z))"

text \<open>An example merge: one local cache, a remote with a cache and a remote without one.\<close>

definition exampleCache :: "DailyActivity list \<Rightarrow> ClaudeCodeStats" where
  "exampleCache days =
     \<lparr>version = 1, lastComputedDate = ''2025-06-01'', dailyActivity = days,
      dailyModelTokens = [], modelUsage = [], totalSessions = 0, totalMessages = 0,
      longestSession = \<lparr>ls_sessionId = [], duration = 0, ls_messageCount = 0, ls_timestamp = []\<rparr>,
      firstSessionDate = ''2025-01-01'', hourCounts = []\<rparr>"

definition exampleLocal :: CollectedData where
  "exampleLocal =
     \<lparr>statsCache = Some (exampleCache
        [\<lparr>date = ''2025-01-01'', messageCount = 3, sessionCount = 1, toolCallCount = 2\<rparr>,
         \<lparr>date = ''2025-01-02'', messageCount = 5, sessionCount = 2, toolCallCount = 0\<rparr>]),
      history = [], projects = []\<rparr>"

definition exampleRemotes :: "RemoteData list" where
  "exampleRemotes =
     [\<lparr>host = ''a'', r_statsCache = Some (exampleCache
         [\<lparr>date = ''2025-01-01'', messageCount = 10, sessionCount = 4, toolCallCount = 7\<rparr>,
          \<lparr>date = ''2025-01-03'', messageCount = 1, sessionCount = 1, toolCallCount = 1\<rparr>]),
       r_history = [], r_projects = [], oldestSessionTimestamp = None\<rparr>,
      \<lparr>host = ''b'', r_statsCache = None, r_history = [], r_projects = [],
       oldestSessionTimestamp = None\<rparr>]"

text \<open>A local cache that lists 2025-01-01 twice, and one remote with a record of that day.\<close>

definition repeatedLocal :: CollectedData where
  "repeatedLocal =
     \<lparr>statsCache = Some (exampleCache
        [\<lparr>date = ''2025-01-01'', messageCount = 3, sessionCount = 1, toolCallCount = 2\<rparr>,
         \<lparr>date = ''2025-01-01'', messageCount = 5, sessionCount = 2, toolCallCount = 0\<rparr>]),
      history = [], projects = []\<rparr>"

definition oneRemote :: "RemoteData list" where
  "oneRemote =
     [\<lparr>host = ''a'', r_statsCache = Some (exampleCache
         [\<lparr>date = ''2025-01-01'', messageCount = 10, sessionCount = 4, toolCallCount = 7\<rparr>]),
       r_history = [], r_projects = [], oldestSessionTimestamp = None\<rparr>]"

section \<open>Calendar dates (the platform's \<open>Date\<close>)\<close>

text \<open>
  \<open>new Date(s)\<close> for a date-only ISO string \<open>YYYY-MM-DD\<close> that names a day of the
  calendar is midnight UTC of that day, so \<open>getTime()\<close> is the day's number since
  1970-01-01 times 86400000. The cache's \<open>date\<close> fields and \<open>formatDateKey\<close>
  have this format. What \<open>new Date(s)\<close> is for any other string (a full timestamp, a
  day of the month beyond the month's length, a text that is no date) is the platform's
  choice and is read from the environment of the stats calculator.
\<close>

definition isLeap :: "int \<Rightarrow> bool" where
  "isLeap y \<longleftrightarrow> (y mod 4 = 0 \<and> y mod 100 \<noteq> 0) \<or> y mod 400 = 0"

definition daysInMonth :: "int \<Rightarrow> nat \<Rightarrow> nat" where
  "daysInMonth y m =
     (if m = 2 then (if isLeap y then 29 else 28)
      else if m = 4 \<or> m = 6 \<or> m = 9 \<or> m = 11 then 30 else 31)"

definition daysBeforeYear :: "int \<Rightarrow> int" where
  "daysBeforeYear y =
     365 * (y - 1970) + ((y - 1) div 4 - 492) - ((y - 1) div 100 - 19) + ((y - 1) div 400 - 4)"

definition daysBeforeMonth :: "int \<Rightarrow> nat \<Rightarrow> nat" where
  "daysBeforeMonth y m = sum_list (map (daysInMonth y) [1..<m])"

definition validDate :: "int \<times> nat \<times> nat \<Rightarrow> bool" where
  "validDate c = (case c of (y, m, d) \<Rightarrow> 1 \<le> m \<and> m \<le> 12 \<and> 1 \<le> d \<and> d \<le> daysInMonth y m)"

definition epochDay :: "int \<times> nat \<times> nat \<Rightarrow> int" where
  "epochDay c = (case c of (y, m, d) \<Rightarrow> daysBeforeYear y + int (daysBeforeMonth y m) + (int d - 1))"

definition digitVal :: "char \<Rightarrow> nat option" where
  "digitVal c = (let n = (of_char c :: nat) in if 48 \<le> n \<and> n \<le> 57 then Some (n - 48) else None)"

text \<open>The year, month and day written in a string of the form \<open>YYYY-MM-DD\<close>, and the
  date it names when that is a day of the calendar.\<close>

definition isoDateFields :: "string \<Rightarrow> (int \<times> nat \<times> nat) option" where
  "isoDateFields s = (case s of
       [y1, y2, y3, y4, h1, m1, m2, h2, d1, d2] \<Rightarrow>
         (case (digitVal y1, digitVal y2, digitVal y3, digitVal y4,
                digitVal m1, digitVal m2, digitVal d1, digitVal d2) of
            (Some a, Some b, Some c, Some d, Some e, Some f, Some g, Some h) \<Rightarrow>
              if h1 = CHR ''-'' \<and> h2 = CHR ''-''
              then Some (int (1000 * a + 100 * b + 10 * c + d), 10 * e + f, 10 * g + h) else None
          | _ \<Rightarrow> None)
     | _ \<Rightarrow> None)"

definition parseIsoDate :: "string \<Rightarrow> (int \<times> nat \<times> nat) option" where
  "parseIsoDate s = (case isoDateFields s of
       None \<Rightarrow> None
     | Some r \<Rightarrow> if validDate r then Some r else None)"

text \<open>
  One platform's reading of the other strings, used in the examples: a string of the form
  \<open>YYYY-MM-DD\<close> with a month from 01 to 12 and a day from 01 to 31 counts the days
  on into the next month (2025-02-29 is 1 March 2025); anything else is an invalid date.
\<close>

definition rolloverParse :: "string \<Rightarrow> int option" where
  "rolloverParse s = (case isoDateFields s of
       None \<Rightarrow> None
     | Some (y, m, d) \<Rightarrow>
         if 1 \<le> m \<and> m \<le> 12 \<and> 1 \<le> d \<and> d \<le> 31 then Some (epochDay (y, m, d) * 86400000) else None)"

text \<open>\<open>formatDateKey\<close> (stats.ts), applied to the local year, month (1 to 12) and day
  of a \<open>Date\<close>.\<close>

definition formatDateKey :: "int \<times> nat \<times> nat \<Rightarrow> string" where
  "formatDateKey c = (case c of (y, m, d) \<Rightarrow>
     String y @ ''-'' @ padStart2 (showNat m) @ ''-'' @ padStart2 (showNat d))"

text \<open>The day after a date, and the date \<open>k\<close> days after it.\<close>

definition nextDay :: "int \<times> nat \<times> nat \<Rightarrow> int \<times> nat \<times> nat" where
  "nextDay c = (case c of (y, m, d) \<Rightarrow>
     if d < daysInMonth y m then (y, m, d + 1)
     else if m < 12 then (y, m + 1, 1) else (y + 1, 1, 1))"

definition plusDays :: "int \<times> nat \<times> nat \<Rightarrow> nat \<Rightarrow> int \<times> nat \<times> nat" where
  "plusDays c k = (nextDay ^^ k) c"

section \<open>Stats calculator (stats.ts)\<close>

record ModelStats =
  ms_id :: string
  ms_name :: string
  providerId :: string
  ms_count :: int
  ms_percentage :: int

record ProjectStats =
  ps_name :: string
  promptCount :: int
  ps_percentage :: int

text \<open>
  What \<open>calculateStats\<close> reads from the platform and from models.ts: the clock, the
  local calendar date of an epoch timestamp (\<open>getFullYear\<close>, \<open>getMonth() + 1\<close>,
  \<open>getDate\<close>), \<open>getModelDisplayName\<close>, and \<open>dateParse\<close>: the epoch
  milliseconds of \<open>new Date(s)\<close> for a string \<open>s\<close> that is not a date-only ISO
  string of a calendar day (\<open>None\<close> for an invalid date, whose time is NaN).
\<close>

record Env =
  env_now :: string
  localDate :: "int \<Rightarrow> int \<times> nat \<times> nat"
  getModelDisplayName :: "string \<Rightarrow> string"
  dateParse :: "string \<Rightarrow> int option"

text \<open>
  \<open>WrappedStats\<close>. Fields that share a name with a cache field carry the prefix
  \<open>ws_\<close>. Left out: \<open>firstSessionDate\<close>, \<open>daysSinceFirstSession\<close> and
  \<open>currentStreak\<close> (they read the clock), \<open>weekdayActivity\<close> (the local weekday
  of a date), \<open>topProviders\<close> (a constant) and the display string
  \<open>formattedDate\<close> of the most active day.
\<close>

record WrappedStats =
  year :: int
  ws_totalSessions :: int
  ws_totalMessages :: int
  totalProjects :: int
  totalPrompts :: int
  totalInputTokens :: int
  totalOutputTokens :: int
  totalTokens :: int
  totalCacheReadTokens :: int
  totalCacheWriteTokens :: int
  totalCost :: rat
  hasCostData :: bool
  topModels :: "ModelStats list"
  maxStreak :: nat
  maxStreakDays :: "string set"
  ws_dailyActivity :: "(string \<times> int) list"
  mostActiveDay :: "(string \<times> int) option"
  topProjects :: "ProjectStats list"
  ws_longestSession :: "(int \<times> int) option"

text \<open>Lines 158-168: the cache's message counts of the requested year.\<close>

definition cacheDailyActivity :: "int \<Rightarrow> ClaudeCodeStats option \<Rightarrow> (string \<times> int) list" where
  "cacheDailyActivity yr mergedStats = (case mergedStats of
       None \<Rightarrow> []
     | Some s \<Rightarrow>
         fold (\<lambda>day m. if startsWith (date day) (String yr)
                         then mapSet (date day) (messageCount day) m else m)
           (dailyActivity s) [])"

text \<open>Lines 171-178: one unit per history entry when the cache gave no entry.\<close>

definition historyDailyActivity :: "Env \<Rightarrow> HistoryEntry list \<Rightarrow> (string \<times> int) list
    \<Rightarrow> (string \<times> int) list" where
  "historyDailyActivity env hist m0 =
     fold (\<lambda>entry m.
             (let dateKey = formatDateKey (localDate env (timestamp entry))
              in mapSet dateKey ((case mapGet m dateKey of Some c \<Rightarrow> c | None \<Rightarrow> 0) + 1) m))
       hist m0"

definition buildDailyActivity :: "Env \<Rightarrow> int \<Rightarrow> ClaudeCodeStats option \<Rightarrow> HistoryEntry list
    \<Rightarrow> (string \<times> int) list" where
  "buildDailyActivity env yr mergedStats mergedHistory =
     (let m = cacheDailyActivity yr mergedStats
      in if length m = 0 \<and> length mergedHistory > 0 then historyDailyActivity env mergedHistory m
         else m)"

text \<open>Lines 223-230: (totalMessages, totalSessions) summed over the year's cache records.\<close>

definition yearTotals :: "int \<Rightarrow> ClaudeCodeStats option \<Rightarrow> int \<times> int" where
  "yearTotals yr mergedStats = (case mergedStats of
       None \<Rightarrow> (0, 0)
     | Some s \<Rightarrow>
         fold (\<lambda>day (tm, ts). if startsWith (date day) (String yr)
                               then (tm + messageCount day, ts + sessionCount day) else (tm, ts))
           (dailyActivity s) (0, 0))"

text \<open>Lines 232-239: input, output, cache-read and cache-write tokens and the cost, summed
  over all model usage entries.\<close>

definition tokenTotals :: "ClaudeCodeStats option \<Rightarrow> int \<times> int \<times> int \<times> int \<times> rat" where
  "tokenTotals mergedStats = (case mergedStats of
       None \<Rightarrow> (0, 0, 0, 0, 0)
     | Some s \<Rightarrow>
         fold (\<lambda>(modelId, usage) (ti, tout, tr, tw, tc).
                 (ti + inputTokens usage, tout + outputTokens usage,
                  tr + cacheReadInputTokens usage, tw + cacheCreationInputTokens usage,
                  tc + costUSD usage))
           (modelUsage s) (0, 0, 0, 0, 0))"

text \<open>Lines 242-247: the estimate from the history when no message was counted.\<close>

definition historyFallback :: "HistoryEntry list \<Rightarrow> int \<times> int \<Rightarrow> int \<times> int" where
  "historyFallback mergedHistory t = (case t of (tm, ts) \<Rightarrow>
     if tm = 0 \<and> length mergedHistory > 0
     then (int (length mergedHistory) * 20, int (length (newSet (map sessionId mergedHistory))))
     else (tm, ts))"

text \<open>
  \<open>total > 0 ? Math.round((count / total) * 100) : 0\<close>, with the exact quotient. The
  code rounds the quotient and the product to doubles before \<open>Math.round\<close>, so the
  two can differ where the exact share ends in .5 or is within a few 1e-14 of such a
  value: 23 of 40 is 57.5 exactly and 58 here, while the double product is
  57.49999999999999 and the code returns 57.
\<close>

definition percentage :: "int \<Rightarrow> int \<Rightarrow> int" where
  "percentage c tot = (if tot > 0 then jsRound ((of_int c / of_int tot) * 100) else 0)"

text \<open>\<open>entries.sort((a, b) => b[1] - a[1])\<close>: a stable sort by descending count.\<close>

definition sortDesc :: "(string \<times> int) list \<Rightarrow> (string \<times> int) list" where
  "sortDesc es = sort_key (\<lambda>e. - snd e) es"

text \<open>Lines 254-274.\<close>

definition modelCounts :: "ClaudeCodeStats option \<Rightarrow> (string \<times> int) list" where
  "modelCounts mergedStats = (case mergedStats of
       None \<Rightarrow> []
     | Some s \<Rightarrow> fold (\<lambda>(modelId, usage) m. mapSet modelId (outputTokens usage) m) (modelUsage s) [])"

definition totalModelCount :: "(string \<times> int) list \<Rightarrow> int" where
  "totalModelCount mc = fold (\<lambda>b a. a + b) (map snd mc) 0"

definition buildTopModels :: "Env \<Rightarrow> ClaudeCodeStats option \<Rightarrow> ModelStats list" where
  "buildTopModels env mergedStats =
     (let mc = modelCounts mergedStats
      in map (\<lambda>(i, c). \<lparr>ms_id = i, ms_name = getModelDisplayName env i, providerId = ''anthropic'',
                         ms_count = c, ms_percentage = percentage c (totalModelCount mc)\<rparr>)
           (take 3 (sortDesc mc)))"

text \<open>Lines 287-300. \<open>entry.project.split("/").pop() || entry.project\<close>: the part after
  the last slash, or the whole string when that part is empty.\<close>

definition lastSegment :: "string \<Rightarrow> string" where
  "lastSegment s = rev (takeWhile (\<lambda>c. c \<noteq> CHR ''/'') (rev s))"

definition projectName :: "string \<Rightarrow> string" where
  "projectName p = (if lastSegment p = [] then p else lastSegment p)"

definition projectCounts :: "HistoryEntry list \<Rightarrow> (string \<times> int) list" where
  "projectCounts mergedHistory =
     fold (\<lambda>entry m.
             (let n = projectName (project entry)
              in mapSet n ((case mapGet m n of Some c \<Rightarrow> c | None \<Rightarrow> 0) + 1) m))
       mergedHistory []"

definition buildTopProjects :: "HistoryEntry list \<Rightarrow> ProjectStats list" where
  "buildTopProjects mergedHistory =
     map (\<lambda>(n, c). \<lparr>ps_name = n, promptCount = c,
                     ps_percentage = percentage c (int (length mergedHistory))\<rparr>)
       (take 4 (sortDesc (projectCounts mergedHistory)))"

text \<open>\<open>new Date(s).getTime()\<close> (\<open>None\<close> for NaN).\<close>

definition getTime :: "Env \<Rightarrow> string \<Rightarrow> int option" where
  "getTime env s = (case parseIsoDate s of
       Some c \<Rightarrow> Some (epochDay c * 86400000)
     | None \<Rightarrow> dateParse env s)"

text \<open>
  \<open>calculateStreaks\<close>, lines 354-395 and 406: the maximum streak and its days; the
  current streak reads the clock and is left out. The loop state is (maxStreak,
  tempStreak, tempStreakStart, maxStreakStart, maxStreakEnd); \<open>diffDays\<close> is
  \<open>None\<close> for NaN, which the comparison \<open>diffDays === 1\<close> treats as not
  consecutive. The quotient is a double in the code and an exact rational here; a
  quotient of an integer by 86400000 that differs from 0.5 or 1.5 does so by more than
  1e-8, so the comparison with 1 has the same outcome.
\<close>

definition diffDays :: "Env \<Rightarrow> string \<Rightarrow> string \<Rightarrow> int option" where
  "diffDays env prevDate currDate = (case (getTime env prevDate, getTime env currDate) of
       (Some p, Some c) \<Rightarrow> Some (jsRound (of_int (c - p) / of_int (1000 * 60 * 60 * 24)))
     | _ \<Rightarrow> None)"

definition activeDates :: "(string \<times> int) list \<Rightarrow> int \<Rightarrow> string list" where
  "activeDates dailyAct yr = sort (filter (\<lambda>d. startsWith d (String yr)) (map fst dailyAct))"

definition streakStep :: "Env \<Rightarrow> string list \<Rightarrow> nat \<Rightarrow> nat \<times> nat \<times> nat \<times> nat \<times> nat
    \<Rightarrow> nat \<times> nat \<times> nat \<times> nat \<times> nat" where
  "streakStep env dates i st = (case st of (mx, tmp, tmpStart, mxStart, mxEnd) \<Rightarrow>
     if diffDays env (dates ! (i - 1)) (dates ! i) = Some 1 then
       (if tmp + 1 > mx then (tmp + 1, tmp + 1, tmpStart, tmpStart, i)
        else (mx, tmp + 1, tmpStart, mxStart, mxEnd))
     else (mx, 1, i, mxStart, mxEnd))"

definition calculateStreaks :: "Env \<Rightarrow> (string \<times> int) list \<Rightarrow> int \<Rightarrow> nat \<times> string set" where
  "calculateStreaks env dailyAct yr =
     (let dates = activeDates dailyAct yr
      in if length dates = 0 then (0, {})
         else (case fold (streakStep env dates) [1..<length dates] (1, 1, 0, 0, 0) of
                 (mx, tmp, tmpStart, mxStart, mxEnd) \<Rightarrow>
                   (mx, set (map (\<lambda>i. dates ! i) [mxStart..<mxEnd + 1]))))"

text \<open>\<open>findMostActiveDay\<close>, without the display string. \<open>!maxDate\<close> holds for the
  empty string.\<close>

definition findMostActiveDay :: "(string \<times> int) list \<Rightarrow> (string \<times> int) option" where
  "findMostActiveDay dailyAct =
     (if length dailyAct = 0 then None
      else (case fold (\<lambda>(d, c) (maxDate, maxCount). if c > maxCount then (d, c) else (maxDate, maxCount))
                   dailyAct ([], 0) of
              (maxDate, maxCount) \<Rightarrow> if maxDate = [] then None else Some (maxDate, maxCount)))"

text \<open>
  \<open>calculateStats\<close> of the stats.ts that merges remote data (totalTokens on line 249).
  \<open>local\<close> is what the collector returned for the year.
\<close>

definition calculateStats :: "Env \<Rightarrow> int \<Rightarrow> CollectedData \<Rightarrow> RemoteData list \<Rightarrow> WrappedStats" where
  "calculateStats env yr local remoteData =
     (let merged = mergeData (env_now env) local remoteData;
          mergedStats = statsCache merged;
          mergedHistory = history merged;
          mergedProjects = projects merged;
          dailyAct = buildDailyActivity env yr mergedStats mergedHistory;
          tot = historyFallback mergedHistory (yearTotals yr mergedStats);
          tok = tokenTotals mergedStats
      in (case tok of (ti, tout, tr, tw, tc) \<Rightarrow>
          \<lparr>year = yr,
           ws_totalSessions = snd tot,
           ws_totalMessages = fst tot,
           totalProjects = int (length mergedProjects),
           totalPrompts = int (length mergedHistory),
           totalInputTokens = ti,
           totalOutputTokens = tout,
           totalTokens = ti + tout + tr + tw,
           totalCacheReadTokens = tr,
           totalCacheWriteTokens = tw,
           totalCost = tc,
           hasCostData = (tc > 0),
           topModels = buildTopModels env mergedStats,
           maxStreak = fst (calculateStreaks env dailyAct yr),
           maxStreakDays = snd (calculateStreaks env dailyAct yr),
           ws_dailyActivity = dailyAct,
           mostActiveDay = findMostActiveDay dailyAct,
           topProjects = buildTopProjects mergedHistory,
           ws_longestSession = map_option (\<lambda>s. (duration (longestSession s), ls_messageCount (longestSession s)))
                                 mergedStats\<rparr>))"

text \<open>
  \<open>calculateStats\<close> of the stats.ts without remote data (the second revision of the
  file in the sources; totalTokens on its line 89). Every other line it shares with the
  function above is modelled by the same definitions.
\<close>

definition calculateStats_local :: "Env \<Rightarrow> int \<Rightarrow> CollectedData \<Rightarrow> WrappedStats" where
  "calculateStats_local env yr local =
     (let dailyAct = buildDailyActivity env yr (statsCache local) (history local);
          tot = historyFallback (history local) (yearTotals yr (statsCache local));
          tok = tokenTotals (statsCache local)
      in (case tok of (ti, tout, tr, tw, tc) \<Rightarrow>
          \<lparr>year = yr,
           ws_totalSessions = snd tot,
           ws_totalMessages = fst tot,
           totalProjects = int (length (projects local)),
           totalPrompts = int (length (history local)),
           totalInputTokens = ti,
           totalOutputTokens = tout,
           totalTokens = ti + tout,
           totalCacheReadTokens = tr,
           totalCacheWriteTokens = tw,
           totalCost = tc,
           hasCostData = (tc > 0),
           topModels = buildTopModels env (statsCache local),
           maxStreak = fst (calculateStreaks env dailyAct yr),
           maxStreakDays = snd (calculateStreaks env dailyAct yr),
           ws_dailyActivity = dailyAct,
           mostActiveDay = findMostActiveDay dailyAct,
           topProjects = buildTopProjects (history local),
           ws_longestSession = map_option (\<lambda>s. (duration (longestSession s), ls_messageCount (longestSession s)))
                                 (statsCache local)\<rparr>))"

definition cacheUsage :: "ClaudeCodeStats option \<Rightarrow> (string \<times> ModelUsage) list" where
  "cacheUsage c = (case c of None \<Rightarrow> [] | Some s \<Rightarrow> modelUsage s)"

definition usageSources :: "CollectedData \<Rightarrow> RemoteData list \<Rightarrow> (string \<times> ModelUsage) list" where
  "usageSources local remotes =
     cacheUsage (statsCache local) @ concat (map (\<lambda>r. cacheUsage (r_statsCache r)) remotes)"

definition outputsNonneg :: "(string \<times> ModelUsage) list \<Rightarrow> bool" where
  "outputsNonneg m \<longleftrightarrow> list_all (\<lambda>e. 0 \<le> outputTokens (snd e)) m"

definition exampleUsage :: "int \<Rightarrow> int \<Rightarrow> int \<Rightarrow> int \<Rightarrow> ModelUsage" where
  "exampleUsage i out r w =
     \<lparr>inputTokens = i, outputTokens = out, cacheReadInputTokens = r, cacheCreationInputTokens = w,
      webSearchRequests = 0, costUSD = 0, contextWindow = 200000\<rparr>"

definition exampleEnv :: Env where
  "exampleEnv = \<lparr>env_now = ''2026-01-01T00:00:00.000Z'', localDate = (\<lambda>t. (2025, 1, 1)),
     getModelDisplayName = (\<lambda>s. s), dateParse = rolloverParse\<rparr>"

definition usageABC :: "(string \<times> ModelUsage) list" where
  "usageABC = [(''A'', exampleUsage 0 50 0 0), (''B'', exampleUsage 0 30 0 0), (''C'', exampleUsage 0 20 0 0)]"

definition withUsage :: "(string \<times> ModelUsage) list \<Rightarrow> CollectedData" where
  "withUsage us = \<lparr>statsCache = Some ((exampleCache [])\<lparr>modelUsage := us\<rparr>), history = [], projects = []\<rparr>"

definition yearCount :: "(DailyActivity \<Rightarrow> int) \<Rightarrow> int \<Rightarrow> ClaudeCodeStats option \<Rightarrow> int" where
  "yearCount f yr ms = (case ms of
       None \<Rightarrow> 0
     | Some c \<Rightarrow> sum_list (map f (filter (\<lambda>day. startsWith (date day) (String yr)) (dailyActivity c))))"

definition exampleEntry :: "string \<Rightarrow> HistoryEntry" where
  "exampleEntry sid = \<lparr>display = ''hi'', timestamp = 1740000000000, project = ''/home/u/app'', sessionId = sid\<rparr>"

definition fiveEntries :: CollectedData where
  "fiveEntries = \<lparr>statsCache = None,
     history = [exampleEntry ''s1'', exampleEntry ''s2'', exampleEntry ''s1'', exampleEntry ''s3'',
                exampleEntry ''s3''],
     projects = [''app'']\<rparr>"

definition exampleDays :: "(string \<times> int) list" where
  "exampleDays = [(''2025-01-05'', 3), (''2025-01-02'', 7), (''2025-01-03'', 7), (''2025-01-04'', 0)]"

section \<open>Local collector (collector.ts)\<close>

text \<open>
  What the collector observes of the file system. A storage root is a directory that
  may hold \<open>stats-cache.json\<close> and a \<open>projects\<close> directory; the file system maps
  the path of a root to its contents, \<open>None\<close> when the directory cannot be listed.
  \<open>statsCacheJson\<close> is the result of \<open>Bun.file(statsPath).json()\<close> (\<open>None\<close> when
  it throws); \<open>projectsDir\<close> is the result of \<open>readdir\<close> on the projects directory
  and, for every project directory in it, of \<open>readdir\<close> on it and of \<open>readFile\<close>
  on each of its files (\<open>None\<close> where the call throws).
\<close>

type_synonym DirListing = "(string \<times> string option) list"

type_synonym ProjectsDir = "(string \<times> DirListing option) list"

record StorageRoot =
  statsCacheJson :: "ClaudeCodeStats option"
  projectsDir :: "ProjectsDir option"

type_synonym FileSystem = "string \<Rightarrow> StorageRoot option"

text \<open>\<open>join(a, b)\<close> of node:path, for plain segments.\<close>

definition join :: "string \<Rightarrow> string \<Rightarrow> string" where
  "join a b = a @ ''/'' @ b"






































text \<open>
  The collector that reads the candidate storage roots (collector.ts with
  \<open>CLAUDE_DATA_PATHS\<close>). \<open>getValidClaudePaths\<close> tries \<open>readdir\<close> on every
  candidate in the order of the list and keeps the ones that do not throw.
\<close>

definition CLAUDE_DATA_PATHS :: "string \<Rightarrow> string list" where
  "CLAUDE_DATA_PATHS homedir = [join homedir ''.claude'', join (join homedir ''.config'') ''claude'']"

definition getValidClaudePaths :: "FileSystem \<Rightarrow> string \<Rightarrow> string list" where
  "getValidClaudePaths fs homedir =
     fold (\<lambda>path validPaths. case fs path of None \<Rightarrow> validPaths | Some r \<Rightarrow> validPaths @ [path])
       (CLAUDE_DATA_PATHS homedir) []"

text \<open>
  The merge of model usage, lines 72-82 of \<open>collectStatsCache\<close>. Here
  \<open>mergedStats.modelUsage\<close> is a plain object, and the test
  \<open>if (mergedStats.modelUsage[modelId])\<close> also succeeds for a \<open>modelId\<close> that
  is not a key of the object but names a property every object inherits: the additions
  then go to the inherited value and the object gets no new key.
\<close>

definition inheritedProperties :: "string list" where
  "inheritedProperties =
     [''constructor'', ''__defineGetter__'', ''__defineSetter__'', ''hasOwnProperty'',
      ''__lookupGetter__'', ''__lookupSetter__'', ''isPrototypeOf'', ''propertyIsEnumerable'',
      ''toString'', ''valueOf'', ''__proto__'', ''toLocaleString'']"

definition mergeUsageEntry :: "string \<times> ModelUsage \<Rightarrow> (string \<times> ModelUsage) list
    \<Rightarrow> (string \<times> ModelUsage) list" where
  "mergeUsageEntry e m = (case e of (modelId, usage) \<Rightarrow>
     (case mapGet m modelId of
        Some existing \<Rightarrow> mapSet modelId
          (existing\<lparr>inputTokens := inputTokens existing + inputTokens usage,
                    outputTokens := outputTokens existing + outputTokens usage,
                    cacheReadInputTokens := cacheReadInputTokens existing + cacheReadInputTokens usage,
                    cacheCreationInputTokens :=
                      cacheCreationInputTokens existing + cacheCreationInputTokens usage,
                    costUSD := costUSD existing + costUSD usage\<rparr>) m
      | None \<Rightarrow> if modelId \<in> set inheritedProperties then m else mapSet modelId usage m))"

text \<open>Lines 54-91: the branch that merges \<open>content\<close> into \<open>mergedStats\<close>.\<close>

definition mergeStatsCache :: "ClaudeCodeStats \<Rightarrow> ClaudeCodeStats \<Rightarrow> ClaudeCodeStats" where
  "mergeStatsCache mergedStats content =
     mergedStats
       \<lparr>dailyActivity :=
          map toDailyActivity
            (fold addDay (dailyActivity content) (fold setDay (dailyActivity mergedStats) [])),
        modelUsage := fold mergeUsageEntry (modelUsage content) (modelUsage mergedStats),
        totalSessions := totalSessions mergedStats + totalSessions content,
        totalMessages := totalMessages mergedStats + totalMessages content,
        firstSessionDate :=
          (if firstSessionDate content < firstSessionDate mergedStats then firstSessionDate content
           else firstSessionDate mergedStats)\<rparr>"

text \<open>\<open>collectStatsCache\<close>, lines 43-99: the loop over the valid roots; a cache file
  that cannot be read or parsed is skipped.\<close>

definition collectStatsCache :: "FileSystem \<Rightarrow> string \<Rightarrow> ClaudeCodeStats option" where
  "collectStatsCache fs homedir =
     fold (\<lambda>basePath mergedStats.
             (case fs basePath of
                None \<Rightarrow> mergedStats
              | Some r \<Rightarrow>
                  (case statsCacheJson r of
                     None \<Rightarrow> mergedStats
                   | Some content \<Rightarrow>
                       (case mergedStats of
                          None \<Rightarrow> Some content
                        | Some m \<Rightarrow> Some (mergeStatsCache m content)))))
       (getValidClaudePaths fs homedir) None"

text \<open>
  For the statement of the merge: the cache files of the candidate roots that can be
  listed, in the order of the candidates; the records that a sequence of \<open>Map.set\<close>
  leaves (of the records of one date, the last); the value of a counter \<open>f\<close> of the
  usage stored under a model id (0 when the id is absent), and the sum of \<open>f\<close> over
  the entries of a model id.
\<close>

definition rootCaches :: "FileSystem \<Rightarrow> string \<Rightarrow> ClaudeCodeStats list" where
  "rootCaches fs homedir =
     concat (map (\<lambda>p. case fs p of
                          None \<Rightarrow> []
                        | Some r \<Rightarrow> (case statsCacheJson r of None \<Rightarrow> [] | Some c \<Rightarrow> [c]))
               [join homedir ''.claude'', join (join homedir ''.config'') ''claude''])"

primrec keepLast :: "DailyActivity list \<Rightarrow> DailyActivity list" where
  "keepLast [] = []"
| "keepLast (a # acts) = (if date a \<in> date ` set acts then keepLast acts else a # keepLast acts)"

definition usageAt :: "(ModelUsage \<Rightarrow> 'a::comm_monoid_add) \<Rightarrow> string \<Rightarrow> (string \<times> ModelUsage) list \<Rightarrow> 'a" where
  "usageAt f k us = (case map_of us k of None \<Rightarrow> 0 | Some u \<Rightarrow> f u)"

definition usageTotal :: "(ModelUsage \<Rightarrow> 'a::comm_monoid_add) \<Rightarrow> string \<Rightarrow> (string \<times> ModelUsage) list \<Rightarrow> 'a" where
  "usageTotal f k us = sum_list (map (\<lambda>e. f (snd e)) (filter (\<lambda>e. fst e = k) us))"

definition addedUsage :: "(ModelUsage \<Rightarrow> 'a::comm_monoid_add) \<Rightarrow> string \<Rightarrow> (string \<times> ModelUsage) list
    \<Rightarrow> (string \<times> ModelUsage) list \<Rightarrow> 'a" where
  "addedUsage f k m us =
     (if k \<in> set inheritedProperties \<and> map_of m k = None then 0 else usageTotal f k us)"

text \<open>
  Two storage roots, each with a cache file that has a record for 2025-01-01 and usage
  of the same model; and a home directory in which only the second root exists.
\<close>

definition rootCache :: "int \<Rightarrow> int \<Rightarrow> int \<Rightarrow> string \<Rightarrow> ClaudeCodeStats" where
  "rootCache mc sc tc first =
     (exampleCache [\<lparr>date = ''2025-01-01'', messageCount = mc, sessionCount = sc, toolCallCount = tc\<rparr>])
       \<lparr>modelUsage := [(''claude-sonnet-4'', exampleUsage mc (2 * mc) 0 0)],
        totalSessions := sc, totalMessages := mc, firstSessionDate := first\<rparr>"

definition twoRoots :: FileSystem where
  "twoRoots = (\<lambda>p.
     if p = ''/home/u/.claude'' then
       Some \<lparr>statsCacheJson = Some (rootCache 3 1 2 ''2025-01-01''), projectsDir = None\<rparr>
     else if p = ''/home/u/.config/claude'' then
       Some \<lparr>statsCacheJson = Some (rootCache 10 4 7 ''2024-11-30''), projectsDir = None\<rparr>
     else None)"

definition newRootOnly :: FileSystem where
  "newRootOnly = (\<lambda>p.
     if p = ''/home/u/.config/claude'' then
       Some \<lparr>statsCacheJson = Some (rootCache 10 4 7 ''2024-11-30''), projectsDir = None\<rparr>
     else None)"

text \<open>
  A daily-activity map for the streak examples: five days of 2025 (27 and 28 February,
  1, 4 and 5 March), inserted out of order among four consecutive days of December 2024;
  and a map with a key that names no day of the calendar.
\<close>

definition fiveDays :: "(string \<times> int) list" where
  "fiveDays = [(''2025-03-04'', 4), (''2024-12-30'', 2), (''2025-02-27'', 12), (''2024-12-28'', 6),
               (''2025-03-01'', 7), (''2024-12-31'', 3), (''2025-02-28'', 1), (''2024-12-29'', 5),
               (''2025-03-05'', 9)]"

definition leapless :: "(string \<times> int) list" where
  "leapless = [(''2025-03-02'', 1), (''2025-02-28'', 1), (''2025-02-29'', 1)]"

text \<open>
  For the statement of the streak: \<open>consecutiveDays env L a b\<close> says that the entries
  of \<open>L\<close> from index \<open>a\<close> to index \<open>b\<close> are a run, each one day after the
  one before it by the test of the code; \<open>streakInv\<close> is the invariant of the loop
  before the iteration with index \<open>n\<close>.
\<close>

definition consecutiveDays :: "Env \<Rightarrow> string list \<Rightarrow> nat \<Rightarrow> nat \<Rightarrow> bool" where
  "consecutiveDays env L a b \<longleftrightarrow>
     a \<le> b \<and> (\<forall>i. a < i \<and> i \<le> b \<longrightarrow> diffDays env (L ! (i - 1)) (L ! i) = Some 1)"

definition streakInv :: "Env \<Rightarrow> string list \<Rightarrow> nat \<Rightarrow> nat \<times> nat \<times> nat \<times> nat \<times> nat \<Rightarrow> bool" where
  "streakInv env L n st = (case st of (mx, tmp, ts, ms, me) \<Rightarrow>
     ts < n \<and> tmp = n - ts \<and> consecutiveDays env L ts (n - 1)
     \<and> (ts = 0 \<or> diffDays env (L ! (ts - 1)) (L ! ts) \<noteq> Some 1)
     \<and> ms \<le> me \<and> me < n \<and> mx = me - ms + 1 \<and> consecutiveDays env L ms me
     \<and> tmp \<le> mx
     \<and> (\<forall>a b. b < n \<and> consecutiveDays env L a b \<longrightarrow>
            b - a + 1 \<le> mx \<and> (b - a + 1 = mx \<longrightarrow> ms \<le> a)))"

section \<open>Merge engine: properties\<close>

lemma map_of_mapSet: "map_of (mapSet k v m) = (map_of m)(k \<mapsto> v)"
  by (induction m) (auto simp: fun_eq_iff)

lemma keys_mapSet: "map fst (mapSet k v m) = (if k \<in> fst ` set m then map fst m else map fst m @ [k])"
  by (induction m) auto

lemma distinct_mapSet: "distinct (map fst m) \<Longrightarrow> distinct (map fst (mapSet k v m))"
  by (simp add: keys_mapSet)

lemma dayTriple_Nil: "dayTriple [] d = (0, 0, 0)"
  by (simp add: dayTriple_def dayTotal_def)

lemma dayTriple_Cons:
  "dayTriple (a # acts) d =
     (if date a = d then addTriple (messageCount a, sessionCount a, toolCallCount a) (dayTriple acts d)
      else dayTriple acts d)"
  by (simp add: dayTriple_def dayTotal_def addTriple_def)

lemma filter_date_absent: "d \<notin> date ` set acts \<Longrightarrow> filter (\<lambda>a. date a = d) acts = []"
  by (induction acts) auto

lemma dayTriple_absent: "d \<notin> date ` set acts \<Longrightarrow> dayTriple acts d = (0, 0, 0)"
  by (simp add: dayTriple_def dayTotal_def filter_date_absent)

lemma map_of_addDay:
  "map_of (addDay a m) d =
     (if date a = d then
        (case map_of m d of
           Some v \<Rightarrow> Some (addTriple v (messageCount a, sessionCount a, toolCallCount a))
         | None \<Rightarrow> Some (messageCount a, sessionCount a, toolCallCount a))
      else map_of m d)"
  by (auto simp: addDay_def mapGet_def map_of_mapSet addTriple_def split: option.splits)

lemma addTriple_assoc: "addTriple (addTriple u v) w = addTriple u (addTriple v w)"
  by (auto simp: addTriple_def split: prod.splits)

lemma map_of_fold_addDay:
  "map_of (fold addDay acts m) d =
     (case map_of m d of
        Some v \<Rightarrow> Some (addTriple v (dayTriple acts d))
      | None \<Rightarrow> if d \<in> date ` set acts then Some (dayTriple acts d) else None)"
proof (induction acts arbitrary: m)
  case Nil
  show ?case by (auto simp: dayTriple_Nil addTriple_def split: option.splits)
next
  case (Cons a acts)
  show ?case
    by (auto simp: Cons.IH map_of_addDay dayTriple_Cons addTriple_assoc split: option.splits)
qed

lemma distinct_addDay: "distinct (map fst m) \<Longrightarrow> distinct (map fst (addDay a m))"
  by (auto simp: addDay_def distinct_mapSet split: option.splits)

lemma distinct_fold_addDay: "distinct (map fst m) \<Longrightarrow> distinct (map fst (fold addDay acts m))"
  by (induction acts arbitrary: m) (auto simp: distinct_addDay)

lemma distinct_fold_setDay: "distinct (map fst m) \<Longrightarrow> distinct (map fst (fold setDay acts m))"
  by (induction acts arbitrary: m) (simp_all add: setDay_def distinct_mapSet del: mapSet.simps)

lemma map_of_setDay:
  "map_of (setDay a m) d =
     (if date a = d then Some (messageCount a, sessionCount a, toolCallCount a) else map_of m d)"
  by (simp add: setDay_def map_of_mapSet)

lemma map_of_fold_setDay:
  "distinct (map date acts) \<Longrightarrow>
   map_of (fold setDay acts m) d =
     (if d \<in> date ` set acts then Some (dayTriple acts d) else map_of m d)"
proof (induction acts arbitrary: m)
  case Nil
  show ?case by simp
next
  case (Cons a acts)
  have notin: "date a \<notin> date ` set acts" using Cons.prems by auto
  have zero: "date a = d \<Longrightarrow> dayTriple acts d = (0, 0, 0)"
    using notin by (simp add: dayTriple_absent)
  show ?case using Cons.prems notin
    by (auto simp: Cons.IH map_of_setDay dayTriple_Cons addTriple_def zero)
qed

lemma daily_fold_mergeRemote:
  "mergedDailyActivity (fold mergeRemote rs acc) =
     fold addDay (concat (map (\<lambda>r. cacheDays (r_statsCache r)) rs)) (mergedDailyActivity acc)"
  by (induction rs arbitrary: acc) (auto simp: mergeRemote_def cacheDays_def split: option.splits)

lemma daily_processLocal:
  "mergedDailyActivity (processLocal lc) = fold setDay (cacheDays lc) []"
  by (auto simp: processLocal_def emptyAcc_def cacheDays_def split: option.splits)

lemma dayTriple_append: "dayTriple (xs @ ys) d = addTriple (dayTriple xs d) (dayTriple ys d)"
  by (simp add: dayTriple_def dayTotal_def addTriple_def)


lemma merged_map_of:
  assumes "distinct (map date (cacheDays (statsCache local)))"
  shows "map_of (mergedDailyActivity (fold mergeRemote remotes (processLocal (statsCache local)))) d =
     (if d \<in> date ` set (contributions local remotes)
      then Some (dayTriple (contributions local remotes) d) else None)"
  using assms
  by (auto simp: daily_fold_mergeRemote daily_processLocal map_of_fold_addDay map_of_fold_setDay
      contributions_def dayTriple_append dayTriple_absent addTriple_def split: option.splits)

lemma set_dailyActivity_merged:
  assumes "distinct (map fst M)" and "a \<in> set (map toDailyActivity M)"
  shows "map_of M (date a) = Some (messageCount a, sessionCount a, toolCallCount a)"
proof -
  from assms(2) obtain d mc sc tc
    where e: "(d, mc, sc, tc) \<in> set M" and a: "a = toDailyActivity (d, mc, sc, tc)"
    by auto
  from e assms(1) have "map_of M d = Some (mc, sc, tc)" by simp
  with a show ?thesis by (simp add: toDailyActivity_def)
qed

lemma dates_toDailyActivity: "map date (map toDailyActivity M) = map fst M"
  by (induction M) (auto simp: toDailyActivity_def)

text \<open>
  C4 (as amended). When the local cache lists every date at most once, merging a local
  dataset with a non-empty list of remote datasets gives a cache whose daily activity
  has one record per date that occurs in a contributing source, and the messageCount,
  sessionCount and toolCallCount of that record are the sums of the corresponding counts
  over the records of that date in all contributing sources (the local cache and every
  remote that has a cache). A date that only one record carries therefore keeps that
  record's counts. The condition is on the local cache only: its records are written
  with \<open>Map.set\<close> (line 41), so a repeated local date keeps its last record, while
  remote records are added (line 62) however often a date is repeated.
\<close>

theorem mergeData_daily_additive:
  assumes "remotes \<noteq> []"
    and "distinct (map date (cacheDays (statsCache local)))"
  shows "\<exists>mc. statsCache (mergeData nowIso local remotes) = Some mc
     \<and> distinct (map date (dailyActivity mc))
     \<and> date ` set (dailyActivity mc) = date ` set (contributions local remotes)
     \<and> (\<forall>a \<in> set (dailyActivity mc).
          messageCount a = dayTotal messageCount (date a) (contributions local remotes)
        \<and> sessionCount a = dayTotal sessionCount (date a) (contributions local remotes)
        \<and> toolCallCount a = dayTotal toolCallCount (date a) (contributions local remotes))"
proof -
  define M where "M = mergedDailyActivity (fold mergeRemote remotes (processLocal (statsCache local)))"
  define mc where "mc = buildMergedStatsCache nowIso (statsCache local)
     (fold mergeRemote remotes (processLocal (statsCache local)))"
  have da: "dailyActivity mc = map toDailyActivity M"
    by (simp add: mc_def M_def buildMergedStatsCache_def)
  have dM: "distinct (map fst M)"
    unfolding M_def daily_fold_mergeRemote daily_processLocal
    by (intro distinct_fold_addDay distinct_fold_setDay) simp
  have look: "map_of M d =
     (if d \<in> date ` set (contributions local remotes)
      then Some (dayTriple (contributions local remotes) d) else None)" for d
    unfolding M_def by (rule merged_map_of [OF assms(2)])
  have "statsCache (mergeData nowIso local remotes) = Some mc"
    using assms(1) by (simp add: mergeData_def mc_def)
  moreover have "distinct (map date (dailyActivity mc))"
    by (simp only: da dates_toDailyActivity dM)
  moreover have "date ` set (dailyActivity mc) = date ` set (contributions local remotes)"
  proof -
    have "date ` set (dailyActivity mc) = set (map fst M)"
      by (simp only: da dates_toDailyActivity [symmetric] set_map)
    also have "\<dots> = dom (map_of M)" by (simp add: dom_map_of_conv_image_fst)
    also have "\<dots> = date ` set (contributions local remotes)"
      by (auto simp: domIff look split: if_splits)
    finally show ?thesis .
  qed
  moreover have "\<forall>a \<in> set (dailyActivity mc).
          messageCount a = dayTotal messageCount (date a) (contributions local remotes)
        \<and> sessionCount a = dayTotal sessionCount (date a) (contributions local remotes)
        \<and> toolCallCount a = dayTotal toolCallCount (date a) (contributions local remotes)"
  proof
    fix a assume "a \<in> set (dailyActivity mc)"
    then have "map_of M (date a) = Some (messageCount a, sessionCount a, toolCallCount a)"
      using set_dailyActivity_merged [OF dM, of a] by (simp only: da)
    then show "messageCount a = dayTotal messageCount (date a) (contributions local remotes)
        \<and> sessionCount a = dayTotal sessionCount (date a) (contributions local remotes)
        \<and> toolCallCount a = dayTotal toolCallCount (date a) (contributions local remotes)"
      by (auto simp: look dayTriple_def split: if_splits)
  qed
  ultimately show ?thesis by blast
qed

theorem mergeData_daily_additive_witness:
  "exampleRemotes \<noteq> []
   \<and> distinct (map date (cacheDays (statsCache exampleLocal)))
   \<and> (\<exists>mc. statsCache (mergeData ''2026-01-01T00:00:00.000Z'' exampleLocal exampleRemotes) = Some mc
     \<and> map (\<lambda>a. (date a, messageCount a, sessionCount a, toolCallCount a)) (dailyActivity mc) =
         [(''2025-01-01'', 13, 5, 9), (''2025-01-02'', 5, 2, 0), (''2025-01-03'', 1, 1, 1)]
     \<and> (\<forall>a \<in> set (dailyActivity mc).
          messageCount a = dayTotal messageCount (date a) (contributions exampleLocal exampleRemotes)))"
proof -
  have h1: "exampleRemotes \<noteq> []" by (simp add: exampleRemotes_def)
  have h2: "distinct (map date (cacheDays (statsCache exampleLocal)))"
    by (simp add: exampleLocal_def exampleCache_def cacheDays_def)
  obtain mc where mc: "statsCache (mergeData ''2026-01-01T00:00:00.000Z'' exampleLocal exampleRemotes) = Some mc"
    and tot: "\<forall>a \<in> set (dailyActivity mc).
          messageCount a = dayTotal messageCount (date a) (contributions exampleLocal exampleRemotes)"
    using mergeData_daily_additive [OF h1 h2, of "''2026-01-01T00:00:00.000Z''"] by blast
  have "statsCache (mergeData ''2026-01-01T00:00:00.000Z'' exampleLocal exampleRemotes) =
      Some (buildMergedStatsCache ''2026-01-01T00:00:00.000Z'' (statsCache exampleLocal)
        (fold mergeRemote exampleRemotes (processLocal (statsCache exampleLocal))))"
    using h1 by (simp add: mergeData_def)
  with mc have "mc = buildMergedStatsCache ''2026-01-01T00:00:00.000Z'' (statsCache exampleLocal)
        (fold mergeRemote exampleRemotes (processLocal (statsCache exampleLocal)))" by simp
  then have vals: "map (\<lambda>a. (date a, messageCount a, sessionCount a, toolCallCount a)) (dailyActivity mc) =
         [(''2025-01-01'', 13, 5, 9), (''2025-01-02'', 5, 2, 0), (''2025-01-03'', 1, 1, 1)]"
    by (simp add: buildMergedStatsCache_def exampleRemotes_def exampleLocal_def exampleCache_def
        processLocal_def mergeRemote_def setDay_def addDay_def mapGet_def toDailyActivity_def)
  show ?thesis
    by (intro conjI exI [where x = mc]) (rule h1 h2 mc vals tot)+
qed



text \<open>
  C4 as stated ("for every local dataset") fails: a local cache with the records
  (2025-01-01, 3 messages) and (2025-01-01, 5 messages) and one remote with
  (2025-01-01, 10 messages) merge to 15 messages (6 sessions, 7 tool calls) for that
  day, while the contributing records add up to 18 messages (7 sessions, 9 tool calls).
\<close>

theorem mergeData_repeated_local_date_counterexample:
  "map (\<lambda>a. (date a, messageCount a, sessionCount a, toolCallCount a))
       (cacheDays (statsCache (mergeData ''2026-01-01T00:00:00.000Z'' repeatedLocal oneRemote)))
     = [(''2025-01-01'', 15, 6, 7)]
   \<and> dayTriple (contributions repeatedLocal oneRemote) ''2025-01-01'' = (18, 7, 9)
   \<and> oneRemote \<noteq> []"
  by (simp add: mergeData_def buildMergedStatsCache_def oneRemote_def repeatedLocal_def exampleCache_def
      processLocal_def mergeRemote_def setDay_def addDay_def mapGet_def toDailyActivity_def
      cacheDays_def contributions_def dayTriple_def dayTotal_def)

text \<open>
  C5. Merging a local dataset with an empty list of remote datasets returns the local
  stats cache itself: absent when the local cache is absent, and otherwise the same
  daily activity, model usage, totalSessions, totalMessages and firstSessionDate.
\<close>

theorem mergeData_no_remotes:
  "statsCache (mergeData nowIso local []) = statsCache local"
  by (simp add: mergeData_def)

section \<open>Stats calculator: percentages\<close>

lemma jsRound_range: "0 \<le> x \<Longrightarrow> x \<le> 100 \<Longrightarrow> 0 \<le> jsRound x \<and> jsRound x \<le> 100"
  unfolding jsRound_def by (simp add: le_floor_iff floor_le_iff)

lemma percentage_range:
  assumes "0 \<le> c" and "c \<le> t"
  shows "0 \<le> percentage c t \<and> percentage c t \<le> 100"
proof (cases "t > 0")
  case True
  have "(of_int c :: rat) / of_int t \<le> 1" using True assms by (simp add: divide_le_eq_1)
  moreover have "0 \<le> (of_int c :: rat) / of_int t" using True assms by simp
  ultimately have "0 \<le> (of_int c :: rat) / of_int t * 100 \<and> (of_int c :: rat) / of_int t * 100 \<le> 100"
    by (auto intro: mult_nonneg_nonneg simp del: times_divide_eq_left)
  then show ?thesis using True by (simp add: percentage_def jsRound_range)
next
  case False
  then show ?thesis by (simp add: percentage_def)
qed

lemma percentage_zero_total: "t \<le> 0 \<Longrightarrow> percentage c t = 0"
  by (simp add: percentage_def)

lemma yearTotals_fold:
  "fold (\<lambda>day (tm, ts). if P day then (tm + messageCount day, ts + sessionCount day) else (tm, ts)) days (a, b)
     = (a + sum_list (map messageCount (filter P days)), b + sum_list (map sessionCount (filter P days)))"
  by (induction days arbitrary: a b) auto

lemma set_setAdd: "set (setAdd x s) = insert x (set s)"
  by (auto simp: setAdd_def)

lemma distinct_setAdd: "distinct s \<Longrightarrow> distinct (setAdd x s)"
  by (auto simp: setAdd_def)

lemma fold_setAdd: "distinct s \<Longrightarrow> distinct (fold setAdd xs s) \<and> set (fold setAdd xs s) = set xs \<union> set s"
  by (induction xs arbitrary: s) (auto simp: set_setAdd distinct_setAdd)

lemma length_newSet: "length (newSet xs) = card (set xs)"
proof -
  have d: "distinct (newSet xs)" and s: "set (newSet xs) = set xs"
    using fold_setAdd [of "[]" xs] by (simp_all add: newSet_def)
  show ?thesis using distinct_card [OF d] s by simp
qed

lemma totalModelCount_sum: "totalModelCount mc = sum_list (map snd mc)"
proof -
  have "fold (\<lambda>b a. a + b) xs (s::int) = s + sum_list xs" for xs s
    by (induction xs arbitrary: s) auto
  then show ?thesis by (simp add: totalModelCount_def)
qed

lemma member_le_sum_list:
  fixes xs :: "int list"
  assumes "\<forall>x \<in> set xs. 0 \<le> x" and "x \<in> set xs"
  shows "x \<le> sum_list xs"
  using assms by (induction xs) (auto simp: sum_list_nonneg intro: add_increasing add_increasing2)

lemma set_mapSet: "set (mapSet k v m) \<subseteq> insert (k, v) (set m)"
  by (induction m) auto

lemma modelCounts_values:
  "set (fold (\<lambda>(modelId, usage) m. mapSet modelId (outputTokens usage) m) us m0)
     \<subseteq> set m0 \<union> (\<lambda>(i, u). (i, outputTokens u)) ` set us"
proof (induction us arbitrary: m0)
  case Nil
  show ?case by simp
next
  case (Cons e us)
  obtain i u where e: "e = (i, u)" by (cases e)
  have "set (mapSet i (outputTokens u) m0) \<subseteq> insert (i, outputTokens u) (set m0)"
    by (rule set_mapSet)
  with Cons.IH [of "mapSet i (outputTokens u) m0"] show ?case
    by (auto simp: e)
qed

lemma modelCounts_nonneg:
  assumes "\<forall>e \<in> set (cacheUsage ms). 0 \<le> outputTokens (snd e)"
  shows "\<forall>e \<in> set (modelCounts ms). 0 \<le> snd e"
proof (cases ms)
  case None
  then show ?thesis by (simp add: modelCounts_def)
next
  case (Some s)
  have "set (modelCounts ms) \<subseteq> (\<lambda>(i, u). (i, outputTokens u)) ` set (modelUsage s)"
    using modelCounts_values [of "modelUsage s" "[]"] by (simp add: modelCounts_def Some)
  then show ?thesis using assms by (fastforce simp: cacheUsage_def Some)
qed

lemma set_topN: "set (take n (sortDesc es)) \<subseteq> set es"
  using set_take_subset [of n "sortDesc es"] by (simp add: sortDesc_def)

lemma topModels_range:
  assumes "\<forall>e \<in> set (cacheUsage ms). 0 \<le> outputTokens (snd e)"
    and "m \<in> set (buildTopModels env ms)"
  shows "0 \<le> ms_percentage m \<and> ms_percentage m \<le> 100"
proof -
  from assms(2) obtain i c where ic: "(i, c) \<in> set (take 3 (sortDesc (modelCounts ms)))"
    and m: "ms_percentage m = percentage c (totalModelCount (modelCounts ms))"
    by (auto simp: buildTopModels_def Let_def)
  from ic set_topN have mem: "(i, c) \<in> set (modelCounts ms)" by blast
  have nn: "\<forall>x \<in> set (map snd (modelCounts ms)). 0 \<le> x"
    using modelCounts_nonneg [OF assms(1)] by auto
  have "c \<in> set (map snd (modelCounts ms))" using mem by force
  then have "0 \<le> c" and "c \<le> totalModelCount (modelCounts ms)"
    using nn member_le_sum_list [OF nn] by (auto simp: totalModelCount_sum)
  then show ?thesis by (simp add: m percentage_range)
qed

lemma outputsNonneg_iff: "outputsNonneg m \<longleftrightarrow> (\<forall>e \<in> set m. 0 \<le> outputTokens (snd e))"
  by (simp add: outputsNonneg_def list_all_iff)

lemma outputsNonneg_mapSet:
  "outputsNonneg m \<Longrightarrow> 0 \<le> outputTokens v \<Longrightarrow> outputsNonneg (mapSet k v m)"
  using set_mapSet [of k v m] by (fastforce simp: outputsNonneg_iff)

lemma outputsNonneg_fold_set:
  "outputsNonneg m \<Longrightarrow> outputsNonneg us \<Longrightarrow>
   outputsNonneg (fold (\<lambda>(modelId, usage) m. mapSet modelId usage m) us m)"
proof (induction us arbitrary: m)
  case Nil
  then show ?case by simp
next
  case (Cons e us)
  obtain i u where e: "e = (i, u)" by (cases e)
  from Cons.prems have "0 \<le> outputTokens u" and "outputsNonneg us"
    by (auto simp: outputsNonneg_iff e)
  with Cons.prems(1) Cons.IH [of "mapSet i u m"] show ?case
    by (simp add: e outputsNonneg_mapSet)
qed

lemma outputsNonneg_addUsage:
  assumes "outputsNonneg m" and "0 \<le> outputTokens (snd e)"
  shows "outputsNonneg (addUsage e m)"
proof -
  obtain i u where e: "e = (i, u)" by (cases e)
  show ?thesis
  proof (cases "mapGet m i")
    case None
    then show ?thesis using assms by (simp add: addUsage_def e outputsNonneg_mapSet)
  next
    case (Some ex)
    then have "(i, ex) \<in> set m" by (simp add: mapGet_def map_of_SomeD)
    then have "0 \<le> outputTokens ex" using assms(1) by (auto simp: outputsNonneg_iff)
    then show ?thesis using assms Some by (simp add: addUsage_def e outputsNonneg_mapSet)
  qed
qed

lemma outputsNonneg_fold_addUsage:
  "outputsNonneg m \<Longrightarrow> outputsNonneg us \<Longrightarrow> outputsNonneg (fold addUsage us m)"
proof (induction us arbitrary: m)
  case Nil
  then show ?case by simp
next
  case (Cons e us)
  from Cons.prems have "0 \<le> outputTokens (snd e)" and "outputsNonneg us"
    by (auto simp: outputsNonneg_iff)
  with Cons.prems(1) Cons.IH [of "addUsage e m"] show ?case
    by (simp add: outputsNonneg_addUsage)
qed

lemma usage_fold_mergeRemote:
  "mergedModelUsage (fold mergeRemote rs acc) =
     fold addUsage (concat (map (\<lambda>r. cacheUsage (r_statsCache r)) rs)) (mergedModelUsage acc)"
  by (induction rs arbitrary: acc) (auto simp: mergeRemote_def cacheUsage_def split: option.splits)

lemma usage_processLocal:
  "mergedModelUsage (processLocal lc) =
     fold (\<lambda>(modelId, usage) m. mapSet modelId usage m) (cacheUsage lc) []"
  by (auto simp: processLocal_def emptyAcc_def cacheUsage_def split: option.splits)

lemma outputsNonneg_append: "outputsNonneg (xs @ ys) \<longleftrightarrow> outputsNonneg xs \<and> outputsNonneg ys"
  by (simp add: outputsNonneg_def)

lemma merged_usage_nonneg:
  assumes "outputsNonneg (usageSources local remotes)"
  shows "outputsNonneg (cacheUsage (statsCache (mergeData nowIso local remotes)))"
proof (cases "remotes = []")
  case True
  then show ?thesis using assms by (simp add: mergeData_def usageSources_def)
next
  case False
  from assms have l: "outputsNonneg (cacheUsage (statsCache local))"
    and r: "outputsNonneg (concat (map (\<lambda>r. cacheUsage (r_statsCache r)) remotes))"
    by (simp_all add: usageSources_def outputsNonneg_append)
  have "outputsNonneg (mergedModelUsage (fold mergeRemote remotes (processLocal (statsCache local))))"
    unfolding usage_fold_mergeRemote usage_processLocal
    by (intro outputsNonneg_fold_addUsage outputsNonneg_fold_set l r) (simp add: outputsNonneg_def)
  then show ?thesis using False
    by (auto simp: mergeData_def cacheUsage_def buildMergedStatsCache_def outputsNonneg_iff)
qed

lemma sum_mapSet:
  fixes m :: "('k \<times> int) list"
  shows "sum_list (map snd (mapSet k v m)) =
     sum_list (map snd m) - (case map_of m k of Some c \<Rightarrow> c | None \<Rightarrow> 0) + v"
  by (induction m) auto

lemma projectCounts_fold:
  fixes m :: "(string \<times> int) list"
  assumes "\<forall>e \<in> set m. 0 \<le> snd e"
  shows "sum_list (map snd (fold (\<lambda>entry m.
             (let n = projectName (project entry)
              in mapSet n ((case mapGet m n of Some c \<Rightarrow> c | None \<Rightarrow> 0) + 1) m)) h m))
           = sum_list (map snd m) + int (length h)
       \<and> (\<forall>e \<in> set (fold (\<lambda>entry m.
             (let n = projectName (project entry)
              in mapSet n ((case mapGet m n of Some c \<Rightarrow> c | None \<Rightarrow> 0) + 1) m)) h m). 0 \<le> snd e)"
  using assms
proof (induction h arbitrary: m)
  case Nil
  then show ?case by simp
next
  case (Cons x h)
  define n where "n = projectName (project x)"
  define v where "v = (case mapGet m n of Some c \<Rightarrow> c | None \<Rightarrow> 0) + 1"
  have v0: "0 \<le> v"
  proof (cases "mapGet m n")
    case None
    then show ?thesis by (simp add: v_def)
  next
    case (Some c)
    then have "(n, c) \<in> set m" by (simp add: mapGet_def map_of_SomeD)
    then have "0 \<le> c" using Cons.prems by auto
    then show ?thesis by (simp add: v_def Some)
  qed
  have nn: "\<forall>e \<in> set (mapSet n v m). 0 \<le> snd e"
    using set_mapSet [of n v m] Cons.prems v0 by fastforce
  have s: "sum_list (map snd (mapSet n v m)) = sum_list (map snd m) + 1"
    by (simp add: sum_mapSet v_def mapGet_def)
  from Cons.IH [OF nn] s show ?case
    by (simp add: Let_def n_def [symmetric] v_def [symmetric])
qed

lemma topProjects_range:
  assumes "p \<in> set (buildTopProjects h)"
  shows "0 \<le> ps_percentage p \<and> ps_percentage p \<le> 100"
proof -
  from assms obtain n c where nc: "(n, c) \<in> set (take 4 (sortDesc (projectCounts h)))"
    and p: "ps_percentage p = percentage c (int (length h))"
    by (auto simp: buildTopProjects_def)
  from nc set_topN have mem: "(n, c) \<in> set (projectCounts h)" by blast
  have sumh: "sum_list (map snd (projectCounts h)) = int (length h)"
    and nn: "\<forall>e \<in> set (projectCounts h). 0 \<le> snd e"
    using projectCounts_fold [of "[]" h] by (simp_all add: projectCounts_def)
  have nn': "\<forall>x \<in> set (map snd (projectCounts h)). 0 \<le> x" using nn by auto
  have "c \<in> set (map snd (projectCounts h))" using mem by force
  then have "0 \<le> c" and "c \<le> int (length h)"
    using nn' member_le_sum_list [OF nn'] sumh by auto
  then show ?thesis by (simp add: p percentage_range)
qed

lemma topModels_zero_total:
  assumes "totalModelCount (modelCounts ms) = 0" and "m \<in> set (buildTopModels env ms)"
  shows "ms_percentage m = 0"
  using assms by (auto simp: buildTopModels_def Let_def percentage_zero_total)

text \<open>
  C3 (as amended). For every computed WrappedStats whose sources report no negative
  output-token count, every top-model percentage lies between 0 and 100, and it is 0
  when its denominator, the sum of all model counts, is 0. Every top-project percentage
  lies between 0 and 100, and no project is listed when the denominator, the number of
  history entries, is 0. A percentage is an integer, so none is NaN. The converse is
  not claimed: a share under half a percent rounds to 0 with a nonzero denominator.
\<close>

theorem percentages_in_range:
  assumes "outputsNonneg (usageSources local remotes)"
  shows "(\<forall>m \<in> set (topModels (calculateStats env yr local remotes)).
            0 \<le> ms_percentage m \<and> ms_percentage m \<le> 100
          \<and> (totalModelCount (modelCounts (statsCache (mergeData (env_now env) local remotes))) = 0
               \<longrightarrow> ms_percentage m = 0))
       \<and> (\<forall>p \<in> set (topProjects (calculateStats env yr local remotes)).
            0 \<le> ps_percentage p \<and> ps_percentage p \<le> 100)
       \<and> (totalPrompts (calculateStats env yr local remotes) = 0
            \<longrightarrow> topProjects (calculateStats env yr local remotes) = [])"
proof -
  let ?ms = "statsCache (mergeData (env_now env) local remotes)"
  let ?h = "history (mergeData (env_now env) local remotes)"
  have tm: "topModels (calculateStats env yr local remotes) = buildTopModels env ?ms"
    by (simp add: calculateStats_def Let_def split: prod.splits)
  have tp: "topProjects (calculateStats env yr local remotes) = buildTopProjects ?h"
    by (simp add: calculateStats_def Let_def split: prod.splits)
  have pr: "totalPrompts (calculateStats env yr local remotes) = int (length ?h)"
    by (simp add: calculateStats_def Let_def split: prod.splits)
  have nn: "\<forall>e \<in> set (cacheUsage ?ms). 0 \<le> outputTokens (snd e)"
    using merged_usage_nonneg [OF assms] by (simp add: outputsNonneg_iff)
  have "buildTopProjects [] = []"
    by (simp add: buildTopProjects_def projectCounts_def sortDesc_def)
  then show ?thesis
    unfolding tm tp pr
    using topModels_range [OF nn] topModels_zero_total topProjects_range by auto
qed

lemma percentage_div: "0 < t \<Longrightarrow> percentage c t = (200 * c + t) div (2 * t)"
proof -
  assume t: "0 < t"
  have "(of_int c :: rat) / of_int t * 100 + 1 / 2 = of_int (200 * c + t) / of_int (2 * t)"
    using t by (simp add: field_simps)
  then have "jsRound (of_int c / of_int t * 100) = (200 * c + t) div (2 * t)"
    unfolding jsRound_def by (simp only: floor_divide_of_int_eq)
  then show ?thesis using t by (simp add: percentage_def)
qed

lemma topModels_ABC_eval:
  "map (\<lambda>m. (ms_id m, ms_count m, ms_percentage m))
     (topModels (calculateStats env yr
        \<lparr>statsCache = Some (c\<lparr>modelUsage := usageABC\<rparr>), history = hist, projects = projs\<rparr> []))
   = [(''A'', 50, 50), (''B'', 30, 30), (''C'', 20, 20)]"
proof -
  have p: "percentage 50 100 = 50" "percentage 30 100 = 30" "percentage 20 100 = 20"
    by (simp_all add: percentage_div)
  show ?thesis
    by (simp add: calculateStats_def mergeData_def Let_def buildTopModels_def modelCounts_def
        usageABC_def exampleUsage_def totalModelCount_def sortDesc_def p split: prod.splits)
qed

text \<open>
  C1 (as amended). For the model usage A: 50, B: 30, C: 20 output tokens, the top models
  are A, B, C in that order with counts 50, 30, 20 and percentages 50, 30, 20: each
  percentage is the count divided by the sum of all model counts, which is 100, times
  100, rounded. The percentages are not 45, 27 and 18, which would need a sum of 110.
\<close>

theorem topModels_ABC:
  "map (\<lambda>m. (ms_id m, ms_count m, ms_percentage m))
     (topModels (calculateStats env yr
        \<lparr>statsCache = Some (c\<lparr>modelUsage := usageABC\<rparr>), history = hist, projects = projs\<rparr> []))
   = [(''A'', 50, 50), (''B'', 30, 30), (''C'', 20, 20)]"
  by (rule topModels_ABC_eval)

text \<open>C1 as stated fails: the percentages of that input are not 45, 27, 18.\<close>

theorem topModels_ABC_counterexample:
  "map ms_percentage (topModels (calculateStats exampleEnv 2025 (withUsage usageABC) [])) \<noteq> [45, 27, 18]"
  using topModels_ABC_eval [of exampleEnv 2025 "exampleCache []" "[]" "[]"]
  by (auto simp: withUsage_def)

lemma percentage_small: "percentage 1 1001 = 0" "percentage 1000 1001 = 100"
  by (simp_all add: percentage_div)

text \<open>
  C3 as stated fails: with A: 1000 and B: 1 output tokens the denominator is 1001 and
  the percentage of B is 0.
\<close>

theorem percentage_zero_counterexample:
  "map ms_percentage
     (topModels (calculateStats exampleEnv 2025
        (withUsage [(''A'', exampleUsage 0 1000 0 0), (''B'', exampleUsage 0 1 0 0)]) [])) = [100, 0]
   \<and> totalModelCount (modelCounts (statsCache
        (mergeData (env_now exampleEnv)
           (withUsage [(''A'', exampleUsage 0 1000 0 0), (''B'', exampleUsage 0 1 0 0)]) []))) = 1001"
  by (simp add: calculateStats_def mergeData_def Let_def buildTopModels_def modelCounts_def withUsage_def
      exampleUsage_def totalModelCount_def sortDesc_def percentage_small split: prod.splits)

theorem percentages_in_range_witness:
  "outputsNonneg (usageSources (withUsage usageABC) [])
   \<and> map ms_percentage (topModels (calculateStats exampleEnv 2025 (withUsage usageABC) [])) = [50, 30, 20]
   \<and> list_all (\<lambda>m. 0 \<le> ms_percentage m \<and> ms_percentage m \<le> 100)
        (topModels (calculateStats exampleEnv 2025 (withUsage usageABC) []))
   \<and> list_all (\<lambda>p. 0 \<le> ps_percentage p \<and> ps_percentage p \<le> 100)
        (topProjects (calculateStats exampleEnv 2025 (withUsage usageABC) []))"
proof -
  have h: "outputsNonneg (usageSources (withUsage usageABC) [])"
    by (simp add: outputsNonneg_def usageSources_def withUsage_def usageABC_def exampleUsage_def
        cacheUsage_def)
  have v: "map ms_percentage (topModels (calculateStats exampleEnv 2025 (withUsage usageABC) [])) = [50, 30, 20]"
    using topModels_ABC_eval [of exampleEnv 2025 "exampleCache []" "[]" "[]"]
    by (auto simp: withUsage_def)
  show ?thesis
    using percentages_in_range [OF h, of exampleEnv 2025] h v
    by (simp add: list_all_iff)
qed

section \<open>Stats calculator: totals\<close>

lemma calculateStats_totals:
  "ws_totalMessages (calculateStats env yr local remotes) =
     fst (historyFallback (history (mergeData (env_now env) local remotes))
            (yearTotals yr (statsCache (mergeData (env_now env) local remotes))))"
  "ws_totalSessions (calculateStats env yr local remotes) =
     snd (historyFallback (history (mergeData (env_now env) local remotes))
            (yearTotals yr (statsCache (mergeData (env_now env) local remotes))))"
  by (simp_all add: calculateStats_def Let_def split: prod.splits)

lemma yearTotals_yearCount:
  "yearTotals yr ms = (yearCount messageCount yr ms, yearCount sessionCount yr ms)"
  by (cases ms) (simp_all add: yearTotals_def yearCount_def yearTotals_fold)

text \<open>
  C7. When the merged dataset has a non-empty history and its stats cache is absent or
  gives zero message and session counts for the requested year, totalMessages is 20
  times the number of history entries and totalSessions is the number of distinct
  session ids of the history. The witness is a history of 5 entries with 3 distinct
  session ids: 100 messages and 3 sessions.
\<close>

theorem totals_fallback:
  assumes "history (mergeData (env_now env) local remotes) \<noteq> []"
    and "statsCache (mergeData (env_now env) local remotes) = None
       \<or> (yearCount messageCount yr (statsCache (mergeData (env_now env) local remotes)) = 0
          \<and> yearCount sessionCount yr (statsCache (mergeData (env_now env) local remotes)) = 0)"
  shows "ws_totalMessages (calculateStats env yr local remotes) =
           20 * int (length (history (mergeData (env_now env) local remotes)))
       \<and> ws_totalSessions (calculateStats env yr local remotes) =
           int (card (sessionId ` set (history (mergeData (env_now env) local remotes))))"
proof -
  let ?M = "mergeData (env_now env) local remotes"
  have z: "yearCount messageCount yr (statsCache ?M) = 0"
    using assms(2) by (auto simp: yearCount_def)
  have "historyFallback (history ?M) (yearTotals yr (statsCache ?M)) =
      (int (length (history ?M)) * 20, int (length (newSet (map sessionId (history ?M)))))"
    using assms(1) z by (simp add: historyFallback_def yearTotals_yearCount)
  then show ?thesis
    by (simp add: calculateStats_totals length_newSet)
qed

theorem totals_fallback_witness:
  "history (mergeData (env_now exampleEnv) fiveEntries []) \<noteq> []
   \<and> statsCache (mergeData (env_now exampleEnv) fiveEntries []) = None
   \<and> length (history (mergeData (env_now exampleEnv) fiveEntries [])) = 5
   \<and> card (sessionId ` set (history (mergeData (env_now exampleEnv) fiveEntries []))) = 3
   \<and> ws_totalMessages (calculateStats exampleEnv 2025 fiveEntries []) = 100
   \<and> ws_totalSessions (calculateStats exampleEnv 2025 fiveEntries []) = 3"
proof -
  have h: "history (mergeData (env_now exampleEnv) fiveEntries []) =
      [exampleEntry ''s1'', exampleEntry ''s2'', exampleEntry ''s1'', exampleEntry ''s3'', exampleEntry ''s3'']"
    by (simp add: mergeData_def fiveEntries_def)
  have h1: "history (mergeData (env_now exampleEnv) fiveEntries []) \<noteq> []"
    by (simp add: h)
  have h2: "statsCache (mergeData (env_now exampleEnv) fiveEntries []) = None"
    by (simp add: mergeData_def fiveEntries_def)
  have "sessionId ` set (history (mergeData (env_now exampleEnv) fiveEntries [])) = {''s1'', ''s2'', ''s3''}"
    by (auto simp: h exampleEntry_def)
  then have c: "card (sessionId ` set (history (mergeData (env_now exampleEnv) fiveEntries []))) = 3"
    by simp
  show ?thesis
    using totals_fallback [OF h1 disjI1 [OF h2], of 2025] h1 h2 c
    by (simp add: h)
qed

text \<open>
  The token total of the calculator that merges remote data is the sum of the four
  category counters.
\<close>

lemma calculateStats_totalTokens:
  "totalTokens (calculateStats env yr local remotes) =
     totalInputTokens (calculateStats env yr local remotes)
   + totalOutputTokens (calculateStats env yr local remotes)
   + totalCacheReadTokens (calculateStats env yr local remotes)
   + totalCacheWriteTokens (calculateStats env yr local remotes)"
  by (simp add: calculateStats_def Let_def split: prod.splits)

text \<open>
  The calculator without remote data adds the input and output counters only.
\<close>

lemma calculateStats_local_totalTokens:
  "totalTokens (calculateStats_local env yr local) =
     totalInputTokens (calculateStats_local env yr local)
   + totalOutputTokens (calculateStats_local env yr local)"
  by (simp add: calculateStats_local_def Let_def split: prod.splits)

text \<open>
  C8. totalTokens should be the sum of the four category counters. For a cache with one
  model of 10 input, 20 output, 7 cache-read and 5 cache-write tokens the calculator
  without remote data returns totalTokens 30 while the four counters add up to 42; the
  calculator that merges remote data returns 42.
\<close>

theorem calculateStats_local_drops_cache_tokens:
  "totalTokens (calculateStats_local env yr (withUsage [(''claude-sonnet-4'', exampleUsage 10 20 7 5)])) = 30
   \<and> totalInputTokens (calculateStats_local env yr (withUsage [(''claude-sonnet-4'', exampleUsage 10 20 7 5)]))
     + totalOutputTokens (calculateStats_local env yr (withUsage [(''claude-sonnet-4'', exampleUsage 10 20 7 5)]))
     + totalCacheReadTokens (calculateStats_local env yr (withUsage [(''claude-sonnet-4'', exampleUsage 10 20 7 5)]))
     + totalCacheWriteTokens (calculateStats_local env yr (withUsage [(''claude-sonnet-4'', exampleUsage 10 20 7 5)]))
     = 42
   \<and> totalTokens (calculateStats env yr (withUsage [(''claude-sonnet-4'', exampleUsage 10 20 7 5)]) []) = 42"
  by (simp add: calculateStats_local_def calculateStats_def mergeData_def Let_def tokenTotals_def
      withUsage_def exampleUsage_def split: prod.splits)

section \<open>Stats calculator: most active day\<close>

lemma mostActive_fold:
  fixes xs :: "(string \<times> int) list"
  shows "case fold (\<lambda>(d, c) (maxDate, maxCount). if c > maxCount then (d, c) else (maxDate, maxCount))
             xs ([], 0) of
        (md, mc) \<Rightarrow>
          (\<forall>e \<in> set xs. snd e \<le> mc) \<and> 0 \<le> mc \<and> (mc = 0 \<longrightarrow> md = [])
          \<and> (0 < mc \<longrightarrow> (\<exists>i < length xs. xs ! i = (md, mc) \<and> (\<forall>j < i. snd (xs ! j) < mc)))"
proof (induction xs rule: rev_induct)
  case Nil
  show ?case by simp
next
  case (snoc x xs)
  obtain d c where x: "x = (d, c)" by (cases x)
  obtain md mc where f: "fold (\<lambda>(d, c) (maxDate, maxCount). if c > maxCount then (d, c) else (maxDate, maxCount))
             xs ([], 0) = (md, mc)" by (cases "fold (\<lambda>(d, c) (maxDate, maxCount). if c > maxCount then (d, c) else (maxDate, maxCount))
             xs ([], 0)")
  from snoc f have le: "\<forall>e \<in> set xs. snd e \<le> mc" and nn: "0 \<le> mc" and z: "mc = 0 \<longrightarrow> md = []"
    and ix: "0 < mc \<longrightarrow> (\<exists>i < length xs. xs ! i = (md, mc) \<and> (\<forall>j < i. snd (xs ! j) < mc))"
    by auto
  show ?case
  proof (cases "c > mc")
    case True
    have "\<forall>j < length xs. snd (xs ! j) < c" using le True by (metis nth_mem le_less_trans)
    moreover have "(xs @ [x]) ! length xs = (d, c)" by (simp add: x)
    moreover have "\<forall>j < length xs. (xs @ [x]) ! j = xs ! j" by (simp add: nth_append)
    ultimately have "\<exists>i < length (xs @ [x]). (xs @ [x]) ! i = (d, c) \<and> (\<forall>j < i. snd ((xs @ [x]) ! j) < c)"
      by (intro exI [of _ "length xs"]) simp
    moreover have "\<forall>e \<in> set (xs @ [x]). snd e \<le> c" using le True by (auto simp: x)
    ultimately show ?thesis using True nn by (simp add: f x)
  next
    case False
    have "0 < mc \<longrightarrow> (\<exists>i < length (xs @ [x]). (xs @ [x]) ! i = (md, mc) \<and> (\<forall>j < i. snd ((xs @ [x]) ! j) < mc))"
    proof
      assume "0 < mc"
      with ix obtain i where i: "i < length xs" "xs ! i = (md, mc)" "\<forall>j < i. snd (xs ! j) < mc" by blast
      then have "(xs @ [x]) ! i = (md, mc) \<and> (\<forall>j < i. snd ((xs @ [x]) ! j) < mc)"
        by (simp add: nth_append)
      with i(1) show "\<exists>i < length (xs @ [x]). (xs @ [x]) ! i = (md, mc) \<and> (\<forall>j < i. snd ((xs @ [x]) ! j) < mc)"
        by (intro exI [of _ i]) simp
    qed
    moreover have "\<forall>e \<in> set (xs @ [x]). snd e \<le> mc" using le False by (auto simp: x)
    ultimately show ?thesis using False nn z by (simp add: f x)
  qed
qed

text \<open>
  C10. For a daily-activity map whose keys are dates (non-empty strings, as every key
  that \<open>calculateStats\<close> writes is, see \<open>buildDailyActivity_keys\<close> below),
  \<open>findMostActiveDay\<close> returns a result if and only if some date of the map has a
  strictly positive count; so it returns null for the empty map and for a map whose
  counts are all zero or negative. The date it returns carries the maximum count and is
  the first entry in insertion order that reaches it.
\<close>

theorem findMostActiveDay_first_max:
  assumes "\<forall>e \<in> set m. fst e \<noteq> []"
  shows "(findMostActiveDay m \<noteq> None \<longleftrightarrow> (\<exists>e \<in> set m. 0 < snd e))
       \<and> (\<forall>d c. findMostActiveDay m = Some (d, c) \<longrightarrow>
             (\<forall>e \<in> set m. snd e \<le> c)
           \<and> (\<exists>i < length m. m ! i = (d, c) \<and> (\<forall>j < i. snd (m ! j) < c)))"
proof -
  obtain md mc where f: "fold (\<lambda>(d, c) (maxDate, maxCount). if c > maxCount then (d, c) else (maxDate, maxCount))
             m ([], 0) = (md, mc)"
    by (cases "fold (\<lambda>(d, c) (maxDate, maxCount). if c > maxCount then (d, c) else (maxDate, maxCount))
             m ([], 0)")
  from mostActive_fold [of m] f have le: "\<forall>e \<in> set m. snd e \<le> mc" and nn: "0 \<le> mc"
    and z: "mc = 0 \<longrightarrow> md = []"
    and ix: "0 < mc \<longrightarrow> (\<exists>i < length m. m ! i = (md, mc) \<and> (\<forall>j < i. snd (m ! j) < mc))"
    by auto
  have res: "findMostActiveDay m = (if m = [] \<or> md = [] then None else Some (md, mc))"
    by (simp add: findMostActiveDay_def f)
  have pos: "0 < mc \<Longrightarrow> md \<noteq> [] \<and> m \<noteq> []"
  proof -
    assume "0 < mc"
    with ix obtain i where "i < length m" "m ! i = (md, mc)" by blast
    then have "(md, mc) \<in> set m" by (metis nth_mem)
    with assms show ?thesis by auto
  qed
  have a: "findMostActiveDay m \<noteq> None \<longleftrightarrow> 0 < mc"
    using res pos z nn by (cases "mc = 0") auto
  have b: "0 < mc \<longleftrightarrow> (\<exists>e \<in> set m. 0 < snd e)"
  proof
    assume "0 < mc"
    with ix obtain i where "i < length m" "m ! i = (md, mc)" by blast
    then have "(md, mc) \<in> set m" by (metis nth_mem)
    with \<open>0 < mc\<close> show "\<exists>e \<in> set m. 0 < snd e" by force
  next
    assume "\<exists>e \<in> set m. 0 < snd e"
    with le show "0 < mc" by force
  qed
  have c: "\<forall>d c. findMostActiveDay m = Some (d, c) \<longrightarrow>
             (\<forall>e \<in> set m. snd e \<le> c)
           \<and> (\<exists>i < length m. m ! i = (d, c) \<and> (\<forall>j < i. snd (m ! j) < c))"
  proof (intro allI impI)
    fix d c assume s: "findMostActiveDay m = Some (d, c)"
    then have dc: "d = md" "c = mc" and "findMostActiveDay m \<noteq> None"
      using res by (auto split: if_splits)
    then have "0 < mc" using a by simp
    with ix le dc show "(\<forall>e \<in> set m. snd e \<le> c)
           \<and> (\<exists>i < length m. m ! i = (d, c) \<and> (\<forall>j < i. snd (m ! j) < c))" by simp
  qed
  from a b c show ?thesis by simp
qed

theorem findMostActiveDay_first_max_witness:
  "list_all (\<lambda>e. fst e \<noteq> []) exampleDays
   \<and> findMostActiveDay exampleDays = Some (''2025-01-02'', 7)
   \<and> findMostActiveDay [(''2025-01-05'', 0), (''2025-01-02'', - 4)] = None
   \<and> (\<exists>e \<in> set exampleDays. 0 < snd e)
   \<and> (\<exists>i < length exampleDays. exampleDays ! i = (''2025-01-02'', 7)
         \<and> (\<forall>j < i. snd (exampleDays ! j) < 7))"
proof -
  have h: "\<forall>e \<in> set exampleDays. fst e \<noteq> []" by (simp add: exampleDays_def)
  have v: "findMostActiveDay exampleDays = Some (''2025-01-02'', 7)"
    by (simp add: findMostActiveDay_def exampleDays_def)
  have n: "findMostActiveDay [(''2025-01-05'', 0), (''2025-01-02'', - 4)] = None"
    by (simp add: findMostActiveDay_def)
  from findMostActiveDay_first_max [OF h] v
  have "(\<exists>e \<in> set exampleDays. 0 < snd e)"
    and "\<exists>i < length exampleDays. exampleDays ! i = (''2025-01-02'', 7)
         \<and> (\<forall>j < i. snd (exampleDays ! j) < 7)"
    by auto
  with h v n show ?thesis by (simp add: list_all_iff)
qed

lemma showNat_nonempty: "showNat n \<noteq> []"
  by (subst showNat.simps) simp

lemma String_nonempty: "String n \<noteq> []"
  by (simp add: String_def showNat_nonempty)

lemma keys_mapSet_set: "fst ` set (mapSet k v m) = insert k (fst ` set m)"
  by (induction m) auto

lemma keys_nonempty_mapSet:
  "k \<noteq> [] \<Longrightarrow> (\<forall>e \<in> set m. fst e \<noteq> []) \<Longrightarrow> \<forall>e \<in> set (mapSet k v m). fst e \<noteq> []"
  using set_mapSet [of k v m] by fastforce

lemma cacheDailyActivity_keys: "\<forall>e \<in> set (cacheDailyActivity yr ms). fst e \<noteq> []"
proof (cases ms)
  case None
  then show ?thesis by (simp add: cacheDailyActivity_def)
next
  case (Some s)
  have "(\<forall>e \<in> set m. fst e \<noteq> []) \<Longrightarrow>
     \<forall>e \<in> set (fold (\<lambda>day m. if startsWith (date day) (String yr)
                         then mapSet (date day) (messageCount day) m else m) days m). fst e \<noteq> []"
    for days and m :: "(string \<times> int) list"
  proof (induction days arbitrary: m)
    case Nil
    then show ?case by simp
  next
    case (Cons a days)
    have "startsWith (date a) (String yr) \<Longrightarrow> date a \<noteq> []"
      using String_nonempty [of yr] by (auto simp: startsWith_def)
    then have "\<forall>e \<in> set (if startsWith (date a) (String yr)
                         then mapSet (date a) (messageCount a) m else m). fst e \<noteq> []"
      using Cons.prems keys_nonempty_mapSet [of "date a" m "messageCount a"] by simp
    from Cons.IH [OF this] show ?case by simp
  qed
  from this [of "[]" "dailyActivity s"] show ?thesis by (simp add: cacheDailyActivity_def Some)
qed

lemma formatDateKey_nonempty: "formatDateKey c \<noteq> []"
  by (cases c) (simp add: formatDateKey_def String_nonempty)

lemma historyDailyActivity_keys:
  "(\<forall>e \<in> set m. fst e \<noteq> []) \<Longrightarrow> \<forall>e \<in> set (historyDailyActivity env h m). fst e \<noteq> []"
  unfolding historyDailyActivity_def
proof (induction h arbitrary: m)
  case Nil
  then show ?case by simp
next
  case (Cons x h)
  define k where "k = formatDateKey (localDate env (timestamp x))"
  define v where "v = (case mapGet m k of Some c \<Rightarrow> c | None \<Rightarrow> 0) + 1"
  have "\<forall>e \<in> set (mapSet k v m). fst e \<noteq> []"
    using Cons.prems keys_nonempty_mapSet [of k m v] formatDateKey_nonempty [of "localDate env (timestamp x)"]
    by (simp add: k_def)
  from Cons.IH [OF this] show ?case by (simp add: Let_def k_def v_def)
qed

lemma buildDailyActivity_keys: "\<forall>e \<in> set (buildDailyActivity env yr ms h). fst e \<noteq> []"
  using cacheDailyActivity_keys [of yr ms] historyDailyActivity_keys [of "cacheDailyActivity yr ms" env h]
  by (simp add: buildDailyActivity_def Let_def)

section \<open>Local collector: transcript scans\<close>


























section \<open>Local collector: storage roots\<close>

lemma dates_keepLast: "date ` set (keepLast acts) = date ` set acts"
  by (induction acts) auto

lemma keepLast_distinct: "distinct (map date acts) \<Longrightarrow> keepLast acts = acts"
  by (induction acts) auto

lemma map_of_fold_setDay_keepLast:
  "map_of (fold setDay acts m) d =
     (if d \<in> date ` set acts then Some (dayTriple (keepLast acts) d) else map_of m d)"
proof (induction acts arbitrary: m)
  case Nil
  show ?case by simp
next
  case (Cons a acts)
  have zero: "d \<notin> date ` set acts \<Longrightarrow> dayTriple (keepLast acts) d = (0, 0, 0)"
    by (rule dayTriple_absent) (simp add: dates_keepLast)
  show ?case
    by (auto simp: Cons.IH map_of_setDay dayTriple_Cons addTriple_def zero)
qed

lemma map_of_mergeUsageEntry_other:
  "k \<noteq> fst e \<Longrightarrow> map_of (mergeUsageEntry e m) k = map_of m k"
  by (cases e) (auto simp: mergeUsageEntry_def mapGet_def map_of_mapSet split: option.splits)

lemma usageAt_fold_mergeUsageEntry:
  fixes f :: "ModelUsage \<Rightarrow> 'a::comm_monoid_add"
  assumes add: "\<And>e u. f (e\<lparr>inputTokens := inputTokens e + inputTokens u,
                    outputTokens := outputTokens e + outputTokens u,
                    cacheReadInputTokens := cacheReadInputTokens e + cacheReadInputTokens u,
                    cacheCreationInputTokens := cacheCreationInputTokens e + cacheCreationInputTokens u,
                    costUSD := costUSD e + costUSD u\<rparr>) = f e + f u"
  shows "usageAt f k (fold mergeUsageEntry us m) = usageAt f k m + addedUsage f k m us"
proof (induction us arbitrary: m)
  case Nil
  show ?case by (simp add: addedUsage_def usageTotal_def)
next
  case (Cons e us)
  obtain k' u where e: "e = (k', u)" by (cases e)
  define m' where "m' = mergeUsageEntry e m"
  have step: "usageAt f k (fold mergeUsageEntry (e # us) m) = usageAt f k m' + addedUsage f k m' us"
    using Cons.IH [of m'] by (simp add: m'_def)
  have "usageAt f k m' + addedUsage f k m' us = usageAt f k m + addedUsage f k m (e # us)"
  proof (cases "k' = k")
    case False
    then have "map_of m' k = map_of m k"
      by (simp add: map_of_mergeUsageEntry_other e m'_def)
    then show ?thesis using False
      by (simp add: usageAt_def addedUsage_def usageTotal_def e)
  next
    case True
    show ?thesis
    proof (cases "map_of m k")
      case (Some x)
      then have "map_of m' k = Some (x\<lparr>inputTokens := inputTokens x + inputTokens u,
                    outputTokens := outputTokens x + outputTokens u,
                    cacheReadInputTokens := cacheReadInputTokens x + cacheReadInputTokens u,
                    cacheCreationInputTokens := cacheCreationInputTokens x + cacheCreationInputTokens u,
                    costUSD := costUSD x + costUSD u\<rparr>)"
        by (simp add: m'_def e True mergeUsageEntry_def mapGet_def map_of_mapSet)
      with Some show ?thesis
        by (simp add: usageAt_def addedUsage_def usageTotal_def e True add add.assoc)
    next
      case None
      show ?thesis
      proof (cases "k \<in> set inheritedProperties")
        case inh: True
        with None have "m' = m" by (simp add: m'_def e True mergeUsageEntry_def mapGet_def)
        with None inh show ?thesis
          by (simp add: usageAt_def addedUsage_def)
      next
        case ninh: False
        with None have "map_of m' k = Some u"
          by (simp add: m'_def e True mergeUsageEntry_def mapGet_def map_of_mapSet)
        with None ninh show ?thesis
          by (simp add: usageAt_def addedUsage_def usageTotal_def e True)
      qed
    qed
  qed
  with step show ?case by simp
qed

lemma getValidClaudePaths_filter:
  "getValidClaudePaths fs homedir =
     filter (\<lambda>p. fs p \<noteq> None) [join homedir ''.claude'', join (join homedir ''.config'') ''claude'']"
  by (auto simp: getValidClaudePaths_def CLAUDE_DATA_PATHS_def split: option.splits)

lemma collectStatsCache_rootCaches:
  "collectStatsCache fs homedir = (case rootCaches fs homedir of
       [] \<Rightarrow> None
     | [c] \<Rightarrow> Some c
     | c1 # c2 # cs \<Rightarrow> Some (mergeStatsCache c1 c2))"
  by (auto simp: collectStatsCache_def getValidClaudePaths_filter rootCaches_def split: option.splits)

lemma length_rootCaches: "length (rootCaches fs homedir) \<le> 2"
  by (auto simp: rootCaches_def split: option.splits)

lemma mergeStatsCache_daily:
  fixes c1 c2 :: ClaudeCodeStats
  defines "M \<equiv> fold addDay (dailyActivity c2) (fold setDay (dailyActivity c1) [])"
  shows "dailyActivity (mergeStatsCache c1 c2) = map toDailyActivity M"
    and "distinct (map fst M)"
    and "map_of M d =
      (if d \<in> date ` set (dailyActivity c1) \<union> date ` set (dailyActivity c2)
       then Some (addTriple (dayTriple (keepLast (dailyActivity c1)) d) (dayTriple (dailyActivity c2) d))
       else None)"
proof -
  show "dailyActivity (mergeStatsCache c1 c2) = map toDailyActivity M"
    by (simp add: mergeStatsCache_def M_def)
  show "distinct (map fst M)"
    unfolding M_def by (intro distinct_fold_addDay distinct_fold_setDay) simp
  have z1: "d \<notin> date ` set (dailyActivity c1) \<Longrightarrow> dayTriple (keepLast (dailyActivity c1)) d = (0, 0, 0)"
    by (rule dayTriple_absent) (simp add: dates_keepLast)
  show "map_of M d =
      (if d \<in> date ` set (dailyActivity c1) \<union> date ` set (dailyActivity c2)
       then Some (addTriple (dayTriple (keepLast (dailyActivity c1)) d) (dayTriple (dailyActivity c2) d))
       else None)"
    unfolding M_def
    by (auto simp: map_of_fold_addDay map_of_fold_setDay_keepLast z1 dayTriple_absent addTriple_def
        split: option.splits)
qed

lemma mergeStatsCache_usage:
  fixes f :: "ModelUsage \<Rightarrow> 'a::comm_monoid_add"
  assumes "\<And>e u. f (e\<lparr>inputTokens := inputTokens e + inputTokens u,
                    outputTokens := outputTokens e + outputTokens u,
                    cacheReadInputTokens := cacheReadInputTokens e + cacheReadInputTokens u,
                    cacheCreationInputTokens := cacheCreationInputTokens e + cacheCreationInputTokens u,
                    costUSD := costUSD e + costUSD u\<rparr>) = f e + f u"
  shows "usageAt f k (modelUsage (mergeStatsCache c1 c2)) =
     usageAt f k (modelUsage c1) + addedUsage f k (modelUsage c1) (modelUsage c2)"
proof -
  have "modelUsage (mergeStatsCache c1 c2) = fold mergeUsageEntry (modelUsage c2) (modelUsage c1)"
    by (simp add: mergeStatsCache_def)
  then show ?thesis by (simp only: usageAt_fold_mergeUsageEntry [of f, OF assms])
qed

lemma mergeStatsCache_records:
  "distinct (map date (dailyActivity (mergeStatsCache c1 c2)))"
  "date ` set (dailyActivity (mergeStatsCache c1 c2)) = date ` set (dailyActivity c1) \<union> date ` set (dailyActivity c2)"
  "\<forall>a \<in> set (dailyActivity (mergeStatsCache c1 c2)).
      (messageCount a, sessionCount a, toolCallCount a) =
        addTriple (dayTriple (keepLast (dailyActivity c1)) (date a)) (dayTriple (dailyActivity c2) (date a))"
proof -
  define M where "M = fold addDay (dailyActivity c2) (fold setDay (dailyActivity c1) [])"
  have d1: "dailyActivity (mergeStatsCache c1 c2) = map toDailyActivity M"
    unfolding M_def by (rule mergeStatsCache_daily)
  have d2: "distinct (map fst M)"
    unfolding M_def by (rule mergeStatsCache_daily)
  have d3: "map_of M d =
      (if d \<in> date ` set (dailyActivity c1) \<union> date ` set (dailyActivity c2)
       then Some (addTriple (dayTriple (keepLast (dailyActivity c1)) d) (dayTriple (dailyActivity c2) d))
       else None)" for d
    unfolding M_def by (rule mergeStatsCache_daily)
  note d = d1 d2 d3
  show "distinct (map date (dailyActivity (mergeStatsCache c1 c2)))"
    using d2 by (simp only: d1 dates_toDailyActivity)
  have "date ` set (dailyActivity (mergeStatsCache c1 c2)) = set (map fst M)"
    by (simp only: d(1) dates_toDailyActivity [symmetric] set_map)
  also have "\<dots> = dom (map_of M)" by (simp add: dom_map_of_conv_image_fst)
  also have "\<dots> = date ` set (dailyActivity c1) \<union> date ` set (dailyActivity c2)"
    by (auto simp: domIff d(3) split: if_splits)
  finally show "date ` set (dailyActivity (mergeStatsCache c1 c2)) =
      date ` set (dailyActivity c1) \<union> date ` set (dailyActivity c2)" .
  show "\<forall>a \<in> set (dailyActivity (mergeStatsCache c1 c2)).
      (messageCount a, sessionCount a, toolCallCount a) =
        addTriple (dayTriple (keepLast (dailyActivity c1)) (date a)) (dayTriple (dailyActivity c2) (date a))"
  proof
    fix a assume "a \<in> set (dailyActivity (mergeStatsCache c1 c2))"
    then have "map_of M (date a) = Some (messageCount a, sessionCount a, toolCallCount a)"
      using set_dailyActivity_merged [OF d(2), of a] by (simp only: d(1))
    then show "(messageCount a, sessionCount a, toolCallCount a) =
        addTriple (dayTriple (keepLast (dailyActivity c1)) (date a)) (dayTriple (dailyActivity c2) (date a))"
      by (simp add: d(3) split: if_splits)
  qed
qed

text \<open>
  C2. The collector tries the candidate storage roots \<open>~/.claude\<close> and
  \<open>~/.config/claude\<close> in this order and keeps, in this order, the ones that can be
  listed; a root that cannot be listed is skipped. It reads the cache file of every root
  it kept: with no readable cache file the result is null, with one it is that cache,
  and with two the second cache is merged into the first additively. The merged
  totalSessions and totalMessages are the sums and firstSessionDate is the smaller one;
  the daily activity has one record per date of either cache, whose three counts are
  those of the first cache's record of the date (the last one, should the first cache
  list the date twice) plus those of all records of the date in the second cache; and
  for every model id each token counter and the cost is the first cache's value plus
  the sum over the second cache's entries of that id (nothing is added for an id that
  is missing from the first cache and names a property every object inherits, such as
  \<open>constructor\<close>).
\<close>

theorem collectStatsCache_all_roots:
  "getValidClaudePaths fs homedir =
     filter (\<lambda>p. fs p \<noteq> None) [join homedir ''.claude'', join (join homedir ''.config'') ''claude'']
   \<and> length (rootCaches fs homedir) \<le> 2
   \<and> (collectStatsCache fs homedir = None \<longleftrightarrow> rootCaches fs homedir = [])
   \<and> (\<forall>c. rootCaches fs homedir = [c] \<longrightarrow> collectStatsCache fs homedir = Some c)
   \<and> (\<forall>c1 c2. rootCaches fs homedir = [c1, c2] \<longrightarrow>
        (\<exists>m. collectStatsCache fs homedir = Some m
           \<and> totalSessions m = totalSessions c1 + totalSessions c2
           \<and> totalMessages m = totalMessages c1 + totalMessages c2
           \<and> firstSessionDate m = min (firstSessionDate c1) (firstSessionDate c2)
           \<and> distinct (map date (dailyActivity m))
           \<and> date ` set (dailyActivity m) = date ` set (dailyActivity c1) \<union> date ` set (dailyActivity c2)
           \<and> (\<forall>a \<in> set (dailyActivity m).
                 (messageCount a, sessionCount a, toolCallCount a) =
                   addTriple (dayTriple (keepLast (dailyActivity c1)) (date a))
                     (dayTriple (dailyActivity c2) (date a)))
           \<and> (\<forall>k. usageAt inputTokens k (modelUsage m) =
                     usageAt inputTokens k (modelUsage c1)
                       + addedUsage inputTokens k (modelUsage c1) (modelUsage c2)
                 \<and> usageAt outputTokens k (modelUsage m) =
                     usageAt outputTokens k (modelUsage c1)
                       + addedUsage outputTokens k (modelUsage c1) (modelUsage c2)
                 \<and> usageAt cacheReadInputTokens k (modelUsage m) =
                     usageAt cacheReadInputTokens k (modelUsage c1)
                       + addedUsage cacheReadInputTokens k (modelUsage c1) (modelUsage c2)
                 \<and> usageAt cacheCreationInputTokens k (modelUsage m) =
                     usageAt cacheCreationInputTokens k (modelUsage c1)
                       + addedUsage cacheCreationInputTokens k (modelUsage c1) (modelUsage c2)
                 \<and> usageAt costUSD k (modelUsage m) =
                     usageAt costUSD k (modelUsage c1)
                       + addedUsage costUSD k (modelUsage c1) (modelUsage c2))))"
proof (intro conjI allI impI)
  show "getValidClaudePaths fs homedir =
     filter (\<lambda>p. fs p \<noteq> None) [join homedir ''.claude'', join (join homedir ''.config'') ''claude'']"
    by (rule getValidClaudePaths_filter)
  show "length (rootCaches fs homedir) \<le> 2" by (rule length_rootCaches)
  show "collectStatsCache fs homedir = None \<longleftrightarrow> rootCaches fs homedir = []"
    by (simp add: collectStatsCache_rootCaches split: list.splits)
  show "collectStatsCache fs homedir = Some c" if "rootCaches fs homedir = [c]" for c
    using that by (simp add: collectStatsCache_rootCaches)
  show "\<exists>m. collectStatsCache fs homedir = Some m
           \<and> totalSessions m = totalSessions c1 + totalSessions c2
           \<and> totalMessages m = totalMessages c1 + totalMessages c2
           \<and> firstSessionDate m = min (firstSessionDate c1) (firstSessionDate c2)
           \<and> distinct (map date (dailyActivity m))
           \<and> date ` set (dailyActivity m) = date ` set (dailyActivity c1) \<union> date ` set (dailyActivity c2)
           \<and> (\<forall>a \<in> set (dailyActivity m).
                 (messageCount a, sessionCount a, toolCallCount a) =
                   addTriple (dayTriple (keepLast (dailyActivity c1)) (date a))
                     (dayTriple (dailyActivity c2) (date a)))
           \<and> (\<forall>k. usageAt inputTokens k (modelUsage m) =
                     usageAt inputTokens k (modelUsage c1)
                       + addedUsage inputTokens k (modelUsage c1) (modelUsage c2)
                 \<and> usageAt outputTokens k (modelUsage m) =
                     usageAt outputTokens k (modelUsage c1)
                       + addedUsage outputTokens k (modelUsage c1) (modelUsage c2)
                 \<and> usageAt cacheReadInputTokens k (modelUsage m) =
                     usageAt cacheReadInputTokens k (modelUsage c1)
                       + addedUsage cacheReadInputTokens k (modelUsage c1) (modelUsage c2)
                 \<and> usageAt cacheCreationInputTokens k (modelUsage m) =
                     usageAt cacheCreationInputTokens k (modelUsage c1)
                       + addedUsage cacheCreationInputTokens k (modelUsage c1) (modelUsage c2)
                 \<and> usageAt costUSD k (modelUsage m) =
                     usageAt costUSD k (modelUsage c1)
                       + addedUsage costUSD k (modelUsage c1) (modelUsage c2))"
    if r: "rootCaches fs homedir = [c1, c2]" for c1 c2
  proof (intro exI [of _ "mergeStatsCache c1 c2"] conjI allI)
    show "collectStatsCache fs homedir = Some (mergeStatsCache c1 c2)"
      using r by (simp add: collectStatsCache_rootCaches)
    show "totalSessions (mergeStatsCache c1 c2) = totalSessions c1 + totalSessions c2"
      by (simp add: mergeStatsCache_def)
    show "totalMessages (mergeStatsCache c1 c2) = totalMessages c1 + totalMessages c2"
      by (simp add: mergeStatsCache_def)
    show "firstSessionDate (mergeStatsCache c1 c2) = min (firstSessionDate c1) (firstSessionDate c2)"
      by (auto simp: mergeStatsCache_def min_def)
    show "distinct (map date (dailyActivity (mergeStatsCache c1 c2)))"
      by (rule mergeStatsCache_records)
    show "date ` set (dailyActivity (mergeStatsCache c1 c2)) =
        date ` set (dailyActivity c1) \<union> date ` set (dailyActivity c2)"
      by (rule mergeStatsCache_records)
    show "\<forall>a \<in> set (dailyActivity (mergeStatsCache c1 c2)).
        (messageCount a, sessionCount a, toolCallCount a) =
          addTriple (dayTriple (keepLast (dailyActivity c1)) (date a)) (dayTriple (dailyActivity c2) (date a))"
      by (rule mergeStatsCache_records)
    show "usageAt inputTokens k (modelUsage (mergeStatsCache c1 c2)) =
        usageAt inputTokens k (modelUsage c1) + addedUsage inputTokens k (modelUsage c1) (modelUsage c2)" for k
      by (rule mergeStatsCache_usage) simp
    show "usageAt outputTokens k (modelUsage (mergeStatsCache c1 c2)) =
        usageAt outputTokens k (modelUsage c1) + addedUsage outputTokens k (modelUsage c1) (modelUsage c2)" for k
      by (rule mergeStatsCache_usage) simp
    show "usageAt cacheReadInputTokens k (modelUsage (mergeStatsCache c1 c2)) =
        usageAt cacheReadInputTokens k (modelUsage c1)
          + addedUsage cacheReadInputTokens k (modelUsage c1) (modelUsage c2)" for k
      by (rule mergeStatsCache_usage) simp
    show "usageAt cacheCreationInputTokens k (modelUsage (mergeStatsCache c1 c2)) =
        usageAt cacheCreationInputTokens k (modelUsage c1)
          + addedUsage cacheCreationInputTokens k (modelUsage c1) (modelUsage c2)" for k
      by (rule mergeStatsCache_usage) simp
    show "usageAt costUSD k (modelUsage (mergeStatsCache c1 c2)) =
        usageAt costUSD k (modelUsage c1) + addedUsage costUSD k (modelUsage c1) (modelUsage c2)" for k
      by (rule mergeStatsCache_usage) simp
  qed
qed

theorem collectStatsCache_all_roots_witness:
  "getValidClaudePaths twoRoots ''/home/u'' = [''/home/u/.claude'', ''/home/u/.config/claude'']
   \<and> rootCaches twoRoots ''/home/u'' = [rootCache 3 1 2 ''2025-01-01'', rootCache 10 4 7 ''2024-11-30'']
   \<and> (\<exists>m. collectStatsCache twoRoots ''/home/u'' = Some m
        \<and> map (\<lambda>a. (date a, messageCount a, sessionCount a, toolCallCount a)) (dailyActivity m)
            = [(''2025-01-01'', 13, 5, 9)]
        \<and> totalSessions m = 5 \<and> totalMessages m = 13 \<and> firstSessionDate m = ''2024-11-30''
        \<and> usageAt inputTokens ''claude-sonnet-4'' (modelUsage m) = 13
        \<and> usageAt outputTokens ''claude-sonnet-4'' (modelUsage m) = 26)
   \<and> getValidClaudePaths newRootOnly ''/home/u'' = [''/home/u/.config/claude'']
   \<and> collectStatsCache newRootOnly ''/home/u'' = Some (rootCache 10 4 7 ''2024-11-30'')"
proof -
  note t = collectStatsCache_all_roots [of twoRoots "''/home/u''"]
  note n = collectStatsCache_all_roots [of newRootOnly "''/home/u''"]
  have r: "rootCaches twoRoots ''/home/u'' = [rootCache 3 1 2 ''2025-01-01'', rootCache 10 4 7 ''2024-11-30'']"
    by (simp add: rootCaches_def twoRoots_def join_def)
  have r': "rootCaches newRootOnly ''/home/u'' = [rootCache 10 4 7 ''2024-11-30'']"
    by (simp add: rootCaches_def newRootOnly_def join_def)
  have v: "getValidClaudePaths twoRoots ''/home/u'' = [''/home/u/.claude'', ''/home/u/.config/claude'']"
    using t by (simp add: twoRoots_def join_def)
  have v': "getValidClaudePaths newRootOnly ''/home/u'' = [''/home/u/.config/claude'']"
    using n by (simp add: newRootOnly_def join_def)
  have c': "collectStatsCache newRootOnly ''/home/u'' = Some (rootCache 10 4 7 ''2024-11-30'')"
    using n r' by simp
  from t r obtain m where m: "collectStatsCache twoRoots ''/home/u'' = Some m"
    and ts: "totalSessions m = totalSessions (rootCache 3 1 2 ''2025-01-01'')
        + totalSessions (rootCache 10 4 7 ''2024-11-30'')"
    and tm: "totalMessages m = totalMessages (rootCache 3 1 2 ''2025-01-01'')
        + totalMessages (rootCache 10 4 7 ''2024-11-30'')"
    and fd: "firstSessionDate m = min (firstSessionDate (rootCache 3 1 2 ''2025-01-01''))
        (firstSessionDate (rootCache 10 4 7 ''2024-11-30''))"
    and ui: "usageAt inputTokens ''claude-sonnet-4'' (modelUsage m) =
        usageAt inputTokens ''claude-sonnet-4'' (modelUsage (rootCache 3 1 2 ''2025-01-01''))
          + addedUsage inputTokens ''claude-sonnet-4'' (modelUsage (rootCache 3 1 2 ''2025-01-01''))
              (modelUsage (rootCache 10 4 7 ''2024-11-30''))"
    and uo: "usageAt outputTokens ''claude-sonnet-4'' (modelUsage m) =
        usageAt outputTokens ''claude-sonnet-4'' (modelUsage (rootCache 3 1 2 ''2025-01-01''))
          + addedUsage outputTokens ''claude-sonnet-4'' (modelUsage (rootCache 3 1 2 ''2025-01-01''))
              (modelUsage (rootCache 10 4 7 ''2024-11-30''))"
    by blast
  have "collectStatsCache twoRoots ''/home/u'' =
      Some (mergeStatsCache (rootCache 3 1 2 ''2025-01-01'') (rootCache 10 4 7 ''2024-11-30''))"
    unfolding collectStatsCache_def v by (simp add: twoRoots_def)
  with m have "m = mergeStatsCache (rootCache 3 1 2 ''2025-01-01'') (rootCache 10 4 7 ''2024-11-30'')"
    by simp
  then have da: "map (\<lambda>a. (date a, messageCount a, sessionCount a, toolCallCount a)) (dailyActivity m)
            = [(''2025-01-01'', 13, 5, 9)]"
    by (simp add: mergeStatsCache_def rootCache_def exampleCache_def setDay_def addDay_def mapGet_def
        toDailyActivity_def)
  have ts': "totalSessions m = 5" and tm': "totalMessages m = 13"
    using ts tm by (simp_all add: rootCache_def)
  have "''2024-11-30'' < ''2025-01-01''" by code_simp
  then have fd': "firstSessionDate m = ''2024-11-30''"
    using fd by (simp add: rootCache_def min_def)
  have ui': "usageAt inputTokens ''claude-sonnet-4'' (modelUsage m) = 13"
    using ui by (simp add: rootCache_def usageAt_def addedUsage_def usageTotal_def exampleUsage_def)
  have uo': "usageAt outputTokens ''claude-sonnet-4'' (modelUsage m) = 26"
    using uo by (simp add: rootCache_def usageAt_def addedUsage_def usageTotal_def exampleUsage_def)
  show ?thesis
    by (intro conjI exI [of _ m]) (rule v r m da ts' tm' fd' ui' uo' v' c')+
qed

section \<open>Stats calculator: streaks\<close>

lemma of_char_digitChar: "n < 10 \<Longrightarrow> (of_char (digitChar n) :: nat) = 48 + n"
  by (simp add: digitChar_def)

lemma digitVal_digitChar: "n < 10 \<Longrightarrow> digitVal (digitChar n) = Some n"
  by (simp add: digitVal_def of_char_digitChar)

lemma digitChar_less: "a < 10 \<Longrightarrow> b < 10 \<Longrightarrow> digitChar a < digitChar b \<longleftrightarrow> a < b"
  by (simp add: less_char_def of_char_digitChar)

lemma digitChar_eq: "a < 10 \<Longrightarrow> b < 10 \<Longrightarrow> digitChar a = digitChar b \<longleftrightarrow> a = b"
  by (metis of_char_digitChar add_left_cancel)

lemma digitChar_not_dash: "a < 10 \<Longrightarrow> digitChar a \<noteq> CHR ''-''"
proof
  assume "a < 10" and "digitChar a = CHR ''-''"
  then have "(of_char (digitChar a) :: nat) = of_char (CHR ''-'')" by simp
  with \<open>a < 10\<close> show False by (simp add: of_char_digitChar)
qed

lemma showNat_two: "n < 100 \<Longrightarrow> padStart2 (showNat n) = [digitChar (n div 10), digitChar (n mod 10)]"
proof (cases "n < 10")
  case True
  have "CHR ''0'' = digitChar 0" by code_simp
  with True show ?thesis using showNat.simps [of n] by (simp add: padStart2_def)
next
  case False
  assume "n < 100"
  then have "n div 10 < 10" by simp
  with False show ?thesis
    using showNat.simps [of n] showNat.simps [of "n div 10"] by (simp add: padStart2_def)
qed

lemma showNat_four:
  assumes "1000 \<le> n" and "n < 10000"
  shows "showNat n = [digitChar (n div 1000), digitChar (n div 100 mod 10),
                      digitChar (n div 10 mod 10), digitChar (n mod 10)]"
proof -
  have n1: "\<not> n < 10" and n2: "\<not> n div 10 < 10" and n3: "\<not> n div 100 < 10" and n4: "n div 1000 < 10"
    using assms by simp_all
  have e: "n div 10 div 10 = n div 100" "n div 100 div 10 = n div 1000"
    by (simp_all add: div_mult2_eq)
  have a: "showNat n = showNat (n div 10) @ [digitChar (n mod 10)]"
    using n1 showNat.simps [of n] by simp
  have b: "showNat (n div 10) = showNat (n div 100) @ [digitChar (n div 10 mod 10)]"
    using n2 showNat.simps [of "n div 10"] by (simp add: e)
  have c: "showNat (n div 100) = showNat (n div 1000) @ [digitChar (n div 100 mod 10)]"
    using n3 showNat.simps [of "n div 100"] by (simp add: e)
  have d: "showNat (n div 1000) = [digitChar (n div 1000)]"
    using n4 showNat.simps [of "n div 1000"] by simp
  show ?thesis by (simp add: a b c d)
qed

lemma formatDateKey_digits:
  assumes "1000 \<le> y" and "y \<le> 9999" and "m < 100" and "d < 100"
  shows "formatDateKey (y, m, d) =
     [digitChar (nat y div 1000), digitChar (nat y div 100 mod 10), digitChar (nat y div 10 mod 10),
      digitChar (nat y mod 10), CHR ''-'', digitChar (m div 10), digitChar (m mod 10), CHR ''-'',
      digitChar (d div 10), digitChar (d mod 10)]"
proof -
  have "String y = showNat (nat y)" using assms by (simp add: String_def)
  moreover have "1000 \<le> nat y" "nat y < 10000" using assms by simp_all
  ultimately show ?thesis using assms
    by (simp add: formatDateKey_def showNat_four showNat_two)
qed

lemma daysInMonth_bounds: "28 \<le> daysInMonth y m \<and> daysInMonth y m \<le> 31"
  by (simp add: daysInMonth_def)

lemma validDate_bounds: "validDate (y, m, d) \<Longrightarrow> m < 100 \<and> d < 100 \<and> 1 \<le> m \<and> 1 \<le> d"
  using daysInMonth_bounds [of y m] by (auto simp: validDate_def)

lemma four_digits:
    "1000 * (n div 1000) + 100 * (n div 100 mod 10) + 10 * (n div 10 mod 10) + n mod 10 = (n::nat)"
proof -
  have a: "n mod (10 * 10) = 10 * (n div 10 mod 10) + n mod 10" by (rule mod_mult2_eq)
  have b: "n mod (100 * 10) = 100 * (n div 100 mod 10) + n mod 100" by (rule mod_mult2_eq)
  have c: "n = 1000 * (n div 1000) + n mod 1000" by simp
  from a b c show ?thesis by simp
qed

lemma two_digits: "10 * (n div 10) + n mod 10 = (n::nat)"
  by simp

lemma parseIsoDate_formatDateKey:
  assumes "validDate (y, m, d)" and "1000 \<le> y" and "y \<le> 9999"
  shows "parseIsoDate (formatDateKey (y, m, d)) = Some (y, m, d)"
proof -
  from validDate_bounds [OF assms(1)] have b: "m < 100" "d < 100" by simp_all
  have dg: "nat y div 1000 < 10" "nat y div 100 mod 10 < 10" "nat y div 10 mod 10 < 10" "nat y mod 10 < 10"
    "m div 10 < 10" "m mod 10 < 10" "d div 10 < 10" "d mod 10 < 10"
    using assms b by simp_all
  have "int (1000 * (nat y div 1000) + 100 * (nat y div 100 mod 10) + 10 * (nat y div 10 mod 10)
      + nat y mod 10) = y"
    using assms four_digits [of "nat y"] by simp
  then have y: "1000 * int (nat y div 1000) + 100 * int (nat y div 100 mod 10)
      + 10 * int (nat y div 10 mod 10) + int (nat y mod 10) = y"
    by simp
  show ?thesis
    unfolding formatDateKey_digits [OF assms(2,3) b] parseIsoDate_def isoDateFields_def
    using assms(1) by (simp add: digitVal_digitChar dg y two_digits Let_def)
qed

lemma getTime_formatDateKey:
  assumes "validDate c" and "1000 \<le> fst c" and "fst c \<le> 9999"
  shows "getTime env (formatDateKey c) = Some (epochDay c * 86400000)"
  using assms parseIsoDate_formatDateKey [of "fst c" "fst (snd c)" "snd (snd c)"]
  by (simp add: getTime_def)

lemma startsWith_formatDateKey: "startsWith (formatDateKey (y, m, d)) (String y)"
  by (simp add: startsWith_def formatDateKey_def)

lemma jsRound_days: "jsRound (of_int (n * 86400000) / of_int (1000 * 60 * 60 * 24)) = n"
proof -
  have "(of_int (n * 86400000) :: rat) / of_int (1000 * 60 * 60 * 24) = of_int n" by simp
  moreover have "\<lfloor>(of_int n :: rat) + 1 / 2\<rfloor> = n" by (simp add: floor_eq_iff)
  ultimately show ?thesis by (simp only: jsRound_def)
qed

lemma diffDays_formatDateKey:
  assumes "validDate a" "1000 \<le> fst a" "fst a \<le> 9999"
    and "validDate b" "1000 \<le> fst b" "fst b \<le> 9999"
  shows "diffDays env (formatDateKey a) (formatDateKey b) = Some (epochDay b - epochDay a)"
proof -
  have e: "epochDay b * 86400000 - epochDay a * 86400000 = (epochDay b - epochDay a) * 86400000"
    by (simp add: algebra_simps)
  have "diffDays env (formatDateKey a) (formatDateKey b) =
      Some (jsRound (of_int (epochDay b * 86400000 - epochDay a * 86400000) / of_int (1000 * 60 * 60 * 24)))"
    by (simp only: diffDays_def getTime_formatDateKey assms option.case prod.case)
  then show ?thesis by (simp only: e jsRound_days)
qed

lemma daysBeforeMonth_Suc: "1 \<le> m \<Longrightarrow> daysBeforeMonth y (Suc m) = daysBeforeMonth y m + daysInMonth y m"
  by (simp add: daysBeforeMonth_def)

lemma nextDay_cases:
  "nextDay (y, m, d) = (y, m, d + 1) \<and> d < daysInMonth y m
   \<or> nextDay (y, m, d) = (y, m + 1, 1) \<and> \<not> d < daysInMonth y m \<and> m < 12
   \<or> nextDay (y, m, d) = (y + 1, 1, 1) \<and> \<not> m < 12"
  by (simp add: nextDay_def)

lemma validDate_nextDay: "validDate c \<Longrightarrow> validDate (nextDay c)"
proof -
  assume v: "validDate c"
  obtain y m d where c: "c = (y, m, d)" by (cases c)
  from nextDay_cases [of y m d] v show ?thesis
    using daysInMonth_bounds [of y "m + 1"] daysInMonth_bounds [of "y + 1" 1]
    by (auto simp: c validDate_def)
qed

lemma year_nextDay: "fst (nextDay c) = fst c \<or> fst (nextDay c) = fst c + 1"
  by (cases c) (simp add: nextDay_def)

lemma epochDay_nextDay:
  assumes "validDate c" and "fst (nextDay c) = fst c"
  shows "epochDay (nextDay c) = epochDay c + 1"
proof -
  obtain y m d where c: "c = (y, m, d)" by (cases c)
  from assms(1) have m1: "1 \<le> m" and dle: "d \<le> daysInMonth y m" and d1: "1 \<le> d"
    by (simp_all add: c validDate_def)
  from nextDay_cases [of y m d] assms(2) consider
    (day) "nextDay c = (y, m, d + 1)" | (month) "nextDay c = (y, m + 1, 1)" "\<not> d < daysInMonth y m"
    by (auto simp: c)
  then show ?thesis
  proof cases
    case day
    then show ?thesis by (simp add: c epochDay_def)
  next
    case month
    with dle have "d = daysInMonth y m" by simp
    with month(1) m1 d1 show ?thesis by (simp add: c epochDay_def daysBeforeMonth_Suc)
  qed
qed

lemma div_step: "0 < n \<Longrightarrow> (y::int) div n - (y - 1) div n = (if y mod n = 0 then 1 else 0)"
proof -
  assume n: "0 < n"
  define q where "q = y div n"
  define r where "r = y mod n"
  have y: "y = n * q + r" by (simp add: q_def r_def)
  have r: "0 \<le> r" "r < n" using n by (simp_all add: r_def)
  show ?thesis
  proof (cases "r = 0")
    case True
    have e: "y - 1 = n * (q - 1) + (n - 1)" by (simp add: y True algebra_simps)
    have "(y - 1) div n = q - 1" by (rule int_div_pos_eq [OF e]) (use n in simp_all)
    with True show ?thesis by (simp add: q_def r_def)
  next
    case False
    have e: "y - 1 = n * q + (r - 1)" by (simp add: y)
    have "(y - 1) div n = q" by (rule int_div_pos_eq [OF e]) (use r False in simp_all)
    with False show ?thesis by (simp add: q_def r_def)
  qed
qed

lemma upt_1_12: "[Suc 0..<12] = [1, 2, 3, 4, 5, 6, 7, 8, 9, 10, 11]"
  by code_simp

lemma daysBeforeMonth_12: "daysBeforeMonth y 12 = (if isLeap y then 335 else 334)"
  by (simp add: daysBeforeMonth_def upt_1_12 daysInMonth_def)

lemma daysBeforeYear_Suc: "daysBeforeYear (y + 1) = daysBeforeYear y + (if isLeap y then 366 else 365)"
proof -
  have a: "y div 4 = (y - 1) div 4 + (if y mod 4 = 0 then 1 else 0)"
    using div_step [of 4 y] by simp
  have b: "y div 100 = (y - 1) div 100 + (if y mod 100 = 0 then 1 else 0)"
    using div_step [of 100 y] by simp
  have c: "y div 400 = (y - 1) div 400 + (if y mod 400 = 0 then 1 else 0)"
    using div_step [of 400 y] by simp
  have d: "y mod 100 = 0 \<Longrightarrow> y mod 4 = 0"
    using mod_mod_cancel [of 4 100 y] by simp
  have e: "y mod 400 = 0 \<Longrightarrow> y mod 100 = 0"
    using mod_mod_cancel [of 100 400 y] by simp
  show ?thesis
    using d e by (auto simp: daysBeforeYear_def a b c isLeap_def)
qed


lemma epochDay_nextDay_any:
  assumes "validDate c"
  shows "epochDay (nextDay c) = epochDay c + 1"
proof -
  obtain y m d where c: "c = (y, m, d)" by (cases c)
  from assms have m1: "1 \<le> m" and m12: "m \<le> 12" and dle: "d \<le> daysInMonth y m" and d1: "1 \<le> d"
    by (simp_all add: c validDate_def)
  show ?thesis
  proof (cases "d < daysInMonth y m")
    case True
    then show ?thesis by (simp add: c epochDay_def nextDay_def)
  next
    case False
    with dle have dd: "d = daysInMonth y m" by simp
    show ?thesis
    proof (cases "m < 12")
      case True
      with dd m1 d1 show ?thesis by (simp add: c epochDay_def nextDay_def daysBeforeMonth_Suc)
    next
      case False
      with m12 have m: "m = 12" by simp
      with dd have d: "d = 31" by (simp add: daysInMonth_def)
      have "daysBeforeMonth (y + 1) 1 = 0" by (simp add: daysBeforeMonth_def)
      then show ?thesis
        by (simp add: c m d nextDay_def epochDay_def daysBeforeYear_Suc daysBeforeMonth_12 daysInMonth_def)
    qed
  qed
qed

lemma daysBeforeMonth_mono: "1 \<le> m \<Longrightarrow> m \<le> n \<Longrightarrow> daysBeforeMonth y m \<le> daysBeforeMonth y n"
proof (induction n)
  case 0
  then show ?case by simp
next
  case (Suc n)
  show ?case
  proof (cases "m = Suc n")
    case True
    then show ?thesis by simp
  next
    case False
    with Suc have "daysBeforeMonth y m \<le> daysBeforeMonth y n" "1 \<le> n" by simp_all
    then show ?thesis by (simp add: daysBeforeMonth_Suc)
  qed
qed

lemma dayOfYear_bounds:
  assumes "validDate (y, m, d)"
  shows "daysBeforeMonth y m + d \<le> (if isLeap y then 366 else 365)"
proof -
  from assms have m1: "1 \<le> m" and m12: "m \<le> 12" and dle: "d \<le> daysInMonth y m"
    by (simp_all add: validDate_def)
  have "daysBeforeMonth y m + d \<le> daysBeforeMonth y (Suc m)"
    using dle m1 by (simp add: daysBeforeMonth_Suc)
  also have "\<dots> \<le> daysBeforeMonth y 13"
    using m12 by (intro daysBeforeMonth_mono) simp_all
  also have "\<dots> = (if isLeap y then 366 else 365)"
    using daysBeforeMonth_Suc [of 12 y] by (simp add: daysBeforeMonth_12 daysInMonth_def)
  finally show ?thesis .
qed

lemma daysBeforeYear_mono: "daysBeforeYear y \<le> daysBeforeYear (y + int k)"
proof (induction k)
  case 0
  show ?case by simp
next
  case (Suc k)
  have "daysBeforeYear (y + int (Suc k)) = daysBeforeYear ((y + int k) + 1)" by (simp add: algebra_simps)
  also have "\<dots> \<ge> daysBeforeYear (y + int k)" by (simp add: daysBeforeYear_Suc)
  finally show ?case using Suc by simp
qed

lemma epochDay_less_years:
  assumes "validDate (y, m, d)" and "validDate (y', m', d')" and "y < y'"
  shows "epochDay (y, m, d) < epochDay (y', m', d')"
proof -
  have "epochDay (y, m, d) < daysBeforeYear y + (if isLeap y then 366 else 365)"
    using dayOfYear_bounds [OF assms(1)] by (simp add: epochDay_def split: if_splits)
  also have "\<dots> = daysBeforeYear (y + 1)" by (simp add: daysBeforeYear_Suc)
  also have "\<dots> \<le> daysBeforeYear (y + 1 + int (nat (y' - (y + 1))))" by (rule daysBeforeYear_mono)
  also have "\<dots> = daysBeforeYear y'" using assms(3) by simp
  also have "\<dots> \<le> epochDay (y', m', d')" using assms(2) by (simp add: epochDay_def validDate_def)
  finally show ?thesis .
qed

lemma epochDay_less_months:
  assumes "validDate (y, m, d)" and "validDate (y, m', d')" and "m < m'"
  shows "epochDay (y, m, d) < epochDay (y, m', d')"
proof -
  from assms(1) have m1: "1 \<le> m" and dle: "d \<le> daysInMonth y m" by (simp_all add: validDate_def)
  from assms(2) have d1: "1 \<le> d'" by (simp add: validDate_def)
  have "daysBeforeMonth y m + d \<le> daysBeforeMonth y (Suc m)"
    using dle m1 by (simp add: daysBeforeMonth_Suc)
  also have "\<dots> \<le> daysBeforeMonth y m'" using assms(3) by (intro daysBeforeMonth_mono) simp_all
  finally show ?thesis using d1 by (simp add: epochDay_def)
qed

lemma epochDay_inj:
  assumes "validDate a" and "validDate b" and "epochDay a = epochDay b"
  shows "a = b"
proof -
  obtain y m d where a: "a = (y, m, d)" by (cases a)
  obtain y' m' d' where b: "b = (y', m', d')" by (cases b)
  have "\<not> y < y'"
    using epochDay_less_years [of y m d y' m' d'] assms by (auto simp: a b)
  moreover have "\<not> y' < y"
    using epochDay_less_years [of y' m' d' y m d] assms by (auto simp: a b)
  ultimately have y: "y = y'" by linarith
  have "\<not> m < m'"
    using epochDay_less_months [of y m d m' d'] assms by (auto simp: a b y)
  moreover have "\<not> m' < m"
    using epochDay_less_months [of y m' d' m d] assms by (auto simp: a b y)
  ultimately have m: "m = m'" by linarith
  have "d = d'" using assms(3) by (simp add: a b y m epochDay_def)
  with y m show ?thesis by (simp add: a b)
qed

lemma two_digits_less:
  assumes "a < b" and "b < 100"
  shows "digitChar (a div 10) # digitChar (a mod 10) # s < digitChar (b div 10) # digitChar (b mod 10) # t"
proof -
  have dg: "a div 10 < 10" "a mod 10 < 10" "b div 10 < 10" "b mod 10 < 10" using assms by simp_all
  have le: "a div 10 \<le> b div 10" using assms(1) by (simp add: div_le_mono)
  have "a div 10 < b div 10 \<or> (a div 10 = b div 10 \<and> a mod 10 < b mod 10)"
  proof (cases "a div 10 = b div 10")
    case True
    from assms(1) have "10 * (a div 10) + a mod 10 < 10 * (b div 10) + b mod 10"
      by (simp only: mult_div_mod_eq)
    then have "10 * (b div 10) + a mod 10 < 10 * (b div 10) + b mod 10"
      by (simp only: True)
    then have "a mod 10 < b mod 10" by (simp only: nat_add_left_cancel_less)
    with True show ?thesis by (intro disjI2 conjI)
  next
    case False
    with le show ?thesis by simp
  qed
  then show ?thesis
    by (auto simp: digitChar_less dg digitChar_eq)
qed

lemma formatDateKey_nextDay_less:
  assumes "validDate c" and "1000 \<le> fst c" and "fst c \<le> 9999" and "fst (nextDay c) = fst c"
  shows "formatDateKey c < formatDateKey (nextDay c)"
proof -
  obtain y m d where c: "c = (y, m, d)" by (cases c)
  from assms(1) validDate_bounds [of y m d] have b: "m < 100" "d < 100" by (simp_all add: c)
  from assms(2,3) have yr: "1000 \<le> y" "y \<le> 9999" by (simp_all add: c)
  have k: "formatDateKey c =
     [digitChar (nat y div 1000), digitChar (nat y div 100 mod 10), digitChar (nat y div 10 mod 10),
      digitChar (nat y mod 10), CHR ''-'', digitChar (m div 10), digitChar (m mod 10), CHR ''-'',
      digitChar (d div 10), digitChar (d mod 10)]"
    unfolding c by (rule formatDateKey_digits [OF yr b])
  from nextDay_cases [of y m d] assms(4) consider
    (day) "nextDay c = (y, m, d + 1)" "d < daysInMonth y m" | (month) "nextDay c = (y, m + 1, 1)" "m < 12"
    by (auto simp: c)
  then show ?thesis
  proof cases
    case day
    have d': "d + 1 < 100" using day(2) daysInMonth_bounds [of y m] by simp
    have k': "formatDateKey (nextDay c) =
     [digitChar (nat y div 1000), digitChar (nat y div 100 mod 10), digitChar (nat y div 10 mod 10),
      digitChar (nat y mod 10), CHR ''-'', digitChar (m div 10), digitChar (m mod 10), CHR ''-'',
      digitChar ((d + 1) div 10), digitChar ((d + 1) mod 10)]"
      unfolding day(1) by (rule formatDateKey_digits [OF yr b(1) d'])
    show ?thesis
      unfolding k k' using two_digits_less [of d "d + 1" "[]" "[]", OF _ d'] by simp
  next
    case month
    have m': "m + 1 < 100" using month(2) by simp
    have k': "formatDateKey (nextDay c) =
     [digitChar (nat y div 1000), digitChar (nat y div 100 mod 10), digitChar (nat y div 10 mod 10),
      digitChar (nat y mod 10), CHR ''-'', digitChar ((m + 1) div 10), digitChar ((m + 1) mod 10), CHR ''-'',
      digitChar (1 div 10), digitChar (1 mod 10)]"
      unfolding month(1) by (rule formatDateKey_digits [OF yr m']) simp
    show ?thesis
      unfolding k k'
      using two_digits_less [of m "m + 1" "[CHR ''-'', digitChar (d div 10), digitChar (d mod 10)]"
          "[CHR ''-'', digitChar (1 div 10), digitChar (1 mod 10)]", OF _ m']
      by simp
  qed
qed

lemma plusDays_Suc: "plusDays c (Suc k) = nextDay (plusDays c k)"
  by (simp add: plusDays_def)

lemma plusDays_0: "plusDays c 0 = c"
  by (simp add: plusDays_def)

lemma year_plusDays_mono: "j \<le> k \<Longrightarrow> fst (plusDays c j) \<le> fst (plusDays c k)"
proof (induction k)
  case 0
  then show ?case by simp
next
  case (Suc k)
  show ?case
  proof (cases "j = Suc k")
    case True
    then show ?thesis by simp
  next
    case False
    with Suc have "fst (plusDays c j) \<le> fst (plusDays c k)" by simp
    with year_nextDay [of "plusDays c k"] show ?thesis by (auto simp: plusDays_Suc)
  qed
qed

lemma plusDays_chain:
  assumes "validDate c" and "1000 \<le> fst c" and "fst c \<le> 9999" and "fst (plusDays c n) = fst c"
  shows "k \<le> n \<Longrightarrow> validDate (plusDays c k) \<and> fst (plusDays c k) = fst c
           \<and> epochDay (plusDays c k) = epochDay c + int k"
proof (induction k)
  case 0
  show ?case using assms(1) by (simp add: plusDays_0)
next
  case (Suc k)
  then have ih: "validDate (plusDays c k)" "fst (plusDays c k) = fst c"
    "epochDay (plusDays c k) = epochDay c + int k" by simp_all
  have "fst (plusDays c (Suc k)) \<le> fst (plusDays c n)" using Suc.prems by (rule year_plusDays_mono)
  moreover have "fst (plusDays c k) \<le> fst (plusDays c (Suc k))" by (rule year_plusDays_mono) simp
  ultimately have y: "fst (plusDays c (Suc k)) = fst c" using assms(4) ih(2) by simp
  then have same: "fst (nextDay (plusDays c k)) = fst (plusDays c k)" by (simp add: plusDays_Suc ih(2))
  show ?case
    using y validDate_nextDay [OF ih(1)] epochDay_nextDay [OF ih(1) same] ih(3)
    by (simp add: plusDays_Suc)
qed

lemma formatDateKey_plusDays_less:
  assumes "validDate c" and "1000 \<le> fst c" and "fst c \<le> 9999" and "fst (plusDays c n) = fst c"
  shows "j < k \<Longrightarrow> k \<le> n \<Longrightarrow> formatDateKey (plusDays c j) < formatDateKey (plusDays c k)"
proof (induction k)
  case 0
  then show ?case by simp
next
  case (Suc k)
  from plusDays_chain [OF assms, of k] Suc.prems
  have v: "validDate (plusDays c k)" and y: "fst (plusDays c k) = fst c" by simp_all
  from plusDays_chain [OF assms, of "Suc k"] Suc.prems
  have y': "fst (nextDay (plusDays c k)) = fst (plusDays c k)" by (simp add: plusDays_Suc y)
  have step: "formatDateKey (plusDays c k) < formatDateKey (plusDays c (Suc k))"
    using formatDateKey_nextDay_less [OF v _ _ y'] assms(2,3) by (simp add: y plusDays_Suc)
  show ?case
  proof (cases "j = k")
    case True
    with step show ?thesis by simp
  next
    case False
    with Suc have "formatDateKey (plusDays c j) < formatDateKey (plusDays c k)" by simp
    from this step show ?thesis by (rule less_trans)
  qed
qed

lemma diffDays_plusDays:
  assumes "validDate c" and "1000 \<le> fst c" and "fst c \<le> 9999" and "fst (plusDays c n) = fst c"
    and "j \<le> n" and "k \<le> n"
  shows "diffDays env (formatDateKey (plusDays c j)) (formatDateKey (plusDays c k)) = Some (int k - int j)"
proof -
  from plusDays_chain [OF assms(1-4) assms(5)] plusDays_chain [OF assms(1-4) assms(6)]
  show ?thesis using assms(2,3) by (simp add: diffDays_formatDateKey)
qed

lemma startsWith_formatDateKey_fst: "startsWith (formatDateKey c) (String (fst c))"
  by (cases c) (simp add: startsWith_formatDateKey)

lemma upt_1_5: "[1..<5] = [1, 2, 3, 4]"
  by code_simp

lemma upt_0_3: "[0..<3] = [0, 1, 2]"
  by code_simp

lemma calculateStreaks_unfold:
  assumes "activeDates M yr = L" and "L \<noteq> []"
    and "fold (streakStep env L) [1..<length L] (1, 1, 0, 0, 0) = (mx, tmp, ts, ms, me)"
  shows "calculateStreaks env M yr = (mx, set (map (\<lambda>i. L ! i) [ms..<me + 1]))"
  using assms by (simp add: calculateStreaks_def)

lemma upt_0_3': "[0..<2 + 1] = [0, 1, 2]"
  by code_simp

lemma five_day_streak:
  assumes "validDate D" and "1000 \<le> fst D" and "fst D \<le> 9999" and "fst (plusDays D 6) = fst D"
    and "distinct (map fst M)"
    and "{x \<in> set (map fst M). startsWith x (String (fst D))}
       = formatDateKey ` {D, plusDays D 1, plusDays D 2, plusDays D 5, plusDays D 6}"
  shows "calculateStreaks env M (fst D) = (3, formatDateKey ` {D, plusDays D 1, plusDays D 2})"
proof -
  define k where "k i = formatDateKey (plusDays D i)" for i
  note a = assms(1-4)
  have lt: "i < j \<Longrightarrow> j \<le> 6 \<Longrightarrow> k i < k j" for i j
    unfolding k_def by (rule formatDateKey_plusDays_less [OF a])
  have df: "i \<le> 6 \<Longrightarrow> j \<le> 6 \<Longrightarrow> diffDays env (k i) (k j) = Some (int j - int i)" for i j
    unfolding k_def by (rule diffDays_plusDays [OF a])
  have keys: "{x \<in> set (map fst M). startsWith x (String (fst D))} = {k 0, k 1, k 2, k 5, k 6}"
    using assms(6) by (simp add: k_def plusDays_0)
  have srt: "sort (filter (\<lambda>d. startsWith d (String (fst D))) (map fst M)) = [k 0, k 1, k 2, k 5, k 6]"
  proof (rule sorted_distinct_set_unique)
    show "sorted (sort (filter (\<lambda>d. startsWith d (String (fst D))) (map fst M)))" by simp
    show "distinct (sort (filter (\<lambda>d. startsWith d (String (fst D))) (map fst M)))"
      using assms(5) by simp
    show "sorted [k 0, k 1, k 2, k 5, k 6]"
      using lt [of 0 1] lt [of 0 2] lt [of 0 5] lt [of 0 6] lt [of 1 2] lt [of 1 5] lt [of 1 6]
        lt [of 2 5] lt [of 2 6] lt [of 5 6] by (simp add: less_imp_le)
    show "distinct [k 0, k 1, k 2, k 5, k 6]"
      using lt [of 0 1] lt [of 0 2] lt [of 0 5] lt [of 0 6] lt [of 1 2] lt [of 1 5] lt [of 1 6]
        lt [of 2 5] lt [of 2 6] lt [of 5 6] by auto
    have "set (sort (filter (\<lambda>d. startsWith d (String (fst D))) (map fst M)))
        = {x \<in> set (map fst M). startsWith x (String (fst D))}"
      by (simp only: set_sort set_filter)
    then show "set (sort (filter (\<lambda>d. startsWith d (String (fst D))) (map fst M)))
        = set [k 0, k 1, k 2, k 5, k 6]"
      by (simp only: keys) simp
  qed
  have d: "diffDays env (k 0) (k 1) = Some 1" "diffDays env (k 1) (k 2) = Some 1"
    "diffDays env (k 2) (k 5) = Some 3" "diffDays env (k 5) (k 6) = Some 1"
    using df [of 0 1] df [of 1 2] df [of 2 5] df [of 5 6] by simp_all
  have loop: "fold (streakStep env [k 0, k 1, k 2, k 5, k 6]) [1..<5] (1, 1, 0, 0, 0) = (3, 2, 3, 0, 2)"
    unfolding upt_1_5 using d by (simp add: streakStep_def)
  have len: "length [k 0, k 1, k 2, k 5, k 6] = 5" by simp
  have act: "activeDates M (fst D) = [k 0, k 1, k 2, k 5, k 6]"
    by (simp only: activeDates_def srt)
  have "calculateStreaks env M (fst D) =
      (3, set (map (\<lambda>i. [k 0, k 1, k 2, k 5, k 6] ! i) [0..<2 + 1]))"
    by (rule calculateStreaks_unfold [OF act]) (simp_all only: len loop list.distinct not_False_eq_True)
  also have "\<dots> = (3, {k 0, k 1, k 2})"
    unfolding upt_0_3' by simp
  finally show ?thesis by (simp add: k_def plusDays_0)
qed

lemma consecutiveDays_refl: "consecutiveDays env L a a"
  by (auto simp: consecutiveDays_def)

lemma consecutiveDays_extend:
  "consecutiveDays env L a b \<Longrightarrow> diffDays env (L ! b) (L ! Suc b) = Some 1 \<Longrightarrow> consecutiveDays env L a (Suc b)"
  unfolding consecutiveDays_def
  by (metis diff_Suc_1 le_Suc_eq le_SucI)

lemma consecutiveDays_start:
  assumes "consecutiveDays env L a b" and "a < t" and "t \<le> b"
  shows "diffDays env (L ! (t - 1)) (L ! t) = Some 1"
  using assms by (simp add: consecutiveDays_def)

lemma streakInv_init: "streakInv env L 1 (1, 1, 0, 0, 0)"
  by (auto simp: streakInv_def consecutiveDays_def)

lemma streakInv_step:
  assumes inv: "streakInv env L n st" and n: "1 \<le> n"
  shows "streakInv env L (Suc n) (streakStep env L n st)"
proof -
  obtain mx tmp ts ms me where st: "st = (mx, tmp, ts, ms, me)" by (cases st)
  from inv have ts: "ts < n" and tmp: "tmp = n - ts" and cur: "consecutiveDays env L ts (n - 1)"
    and left: "ts = 0 \<or> diffDays env (L ! (ts - 1)) (L ! ts) \<noteq> Some 1"
    and ms: "ms \<le> me" and me: "me < n" and mx: "mx = me - ms + 1" and best: "consecutiveDays env L ms me"
    and le: "tmp \<le> mx"
    and all: "\<And>a b. b < n \<Longrightarrow> consecutiveDays env L a b \<Longrightarrow>
            b - a + 1 \<le> mx \<and> (b - a + 1 = mx \<longrightarrow> ms \<le> a)"
    by (auto simp: streakInv_def st)
  show ?thesis
  proof (cases "diffDays env (L ! (n - 1)) (L ! n) = Some 1")
    case True
    have cur': "consecutiveDays env L ts n"
      using consecutiveDays_extend [OF cur] True n by simp
    have from_ts: "ts \<le> a" if "consecutiveDays env L a n" for a
    proof (rule ccontr)
      assume "\<not> ts \<le> a"
      then have "a < ts" by simp
      with that ts have "diffDays env (L ! (ts - 1)) (L ! ts) = Some 1"
        by (intro consecutiveDays_start [of env L a n ts]) simp_all
      with left \<open>a < ts\<close> show False by simp
    qed
    show ?thesis
    proof (cases "tmp + 1 > mx")
      case big: True
      have step: "streakStep env L n st = (tmp + 1, tmp + 1, ts, ts, n)"
        using True big by (simp add: streakStep_def st)
      have "b - a + 1 \<le> tmp + 1 \<and> (b - a + 1 = tmp + 1 \<longrightarrow> ts \<le> a)"
        if "b < Suc n" and "consecutiveDays env L a b" for a b
      proof (cases "b = n")
        case True
        with that from_ts have "ts \<le> a" by simp
        moreover from that have "a \<le> b" by (simp add: consecutiveDays_def)
        ultimately show ?thesis using True tmp ts by simp
      next
        case False
        with that have "b < n" by simp
        from all [OF this that(2)] big show ?thesis by simp
      qed
      then show ?thesis
        unfolding step using ts tmp cur' left by (auto simp: streakInv_def Suc_diff_le)
    next
      case small: False
      have step: "streakStep env L n st = (mx, tmp + 1, ts, ms, me)"
        using True small by (simp add: streakStep_def st)
      have "b - a + 1 \<le> mx \<and> (b - a + 1 = mx \<longrightarrow> ms \<le> a)"
        if "b < Suc n" and "consecutiveDays env L a b" for a b
      proof (cases "b = n")
        case True
        with that from_ts have "ts \<le> a" by simp
        moreover from that have "a \<le> b" by (simp add: consecutiveDays_def)
        ultimately show ?thesis using True tmp ts small mx ms me by auto
      next
        case False
        with that have "b < n" by simp
        from all [OF this that(2)] show ?thesis .
      qed
      then show ?thesis
        unfolding step using ts tmp cur' left ms me mx best small
        by (auto simp: streakInv_def Suc_diff_le)
    qed
  next
    case False
    have step: "streakStep env L n st = (mx, 1, n, ms, me)"
      using False by (simp add: streakStep_def st)
    have "b - a + 1 \<le> mx \<and> (b - a + 1 = mx \<longrightarrow> ms \<le> a)"
      if "b < Suc n" and "consecutiveDays env L a b" for a b
    proof (cases "b = n")
      case True
      have "a = n"
      proof (rule ccontr)
        assume "a \<noteq> n"
        with that True have "a < n" by (simp add: consecutiveDays_def)
        with that True have "diffDays env (L ! (n - 1)) (L ! n) = Some 1"
          by (intro consecutiveDays_start [of env L a n n]) simp_all
        with False show False by simp
      qed
      then show ?thesis using True mx ms me by auto
    next
      case nb: False
      with that have "b < n" by simp
      from all [OF this that(2)] show ?thesis .
    qed
    then show ?thesis
      unfolding step using False n ms me mx best
      by (auto simp: streakInv_def consecutiveDays_refl)
  qed
qed

lemma streakInv_fold:
  "1 \<le> n \<Longrightarrow> streakInv env L n (fold (streakStep env L) [1..<n] (1, 1, 0, 0, 0))"
proof (induction n)
  case 0
  then show ?case by simp
next
  case (Suc n)
  show ?case
  proof (cases "n = 0")
    case True
    then show ?thesis using streakInv_init [of env L] by simp
  next
    case False
    then have n: "1 \<le> n" by simp
    from streakInv_step [OF Suc.IH [OF n] n] n show ?thesis by simp
  qed
qed

lemma calculateStreaks_empty: "activeDates M yr = [] \<Longrightarrow> calculateStreaks env M yr = (0, {})"
  by (simp add: calculateStreaks_def)

lemma calculateStreaks_longest_run:
  assumes "activeDates M yr \<noteq> []"
  shows "\<exists>s e. s \<le> e \<and> e < length (activeDates M yr)
     \<and> calculateStreaks env M yr = (e - s + 1, set (map (\<lambda>i. activeDates M yr ! i) [s..<e + 1]))
     \<and> consecutiveDays env (activeDates M yr) s e
     \<and> (\<forall>a b. b < length (activeDates M yr) \<and> consecutiveDays env (activeDates M yr) a b \<longrightarrow>
           b - a + 1 \<le> e - s + 1 \<and> (b - a + 1 = e - s + 1 \<longrightarrow> s \<le> a))"
proof -
  define L where "L = activeDates M yr"
  have len: "1 \<le> length L" using assms by (cases L) (simp_all add: L_def)
  obtain mx tmp ts ms me where f: "fold (streakStep env L) [1..<length L] (1, 1, 0, 0, 0) = (mx, tmp, ts, ms, me)"
    by (cases "fold (streakStep env L) [1..<length L] (1, 1, 0, 0, 0)")
  from streakInv_fold [OF len, where L = L and env = env] f
  have ms: "ms \<le> me" and me: "me < length L" and mx: "mx = me - ms + 1" and best: "consecutiveDays env L ms me"
    and all: "\<forall>a b. b < length L \<and> consecutiveDays env L a b \<longrightarrow>
            b - a + 1 \<le> mx \<and> (b - a + 1 = mx \<longrightarrow> ms \<le> a)"
    by (auto simp: streakInv_def)
  have "calculateStreaks env M yr = (mx, set (map (\<lambda>i. L ! i) [ms..<me + 1]))"
    using assms by (intro calculateStreaks_unfold [OF _ _ f]) (simp_all add: L_def)
  with ms me best all show ?thesis
    unfolding L_def [symmetric] mx by (intro exI [of _ ms] exI [of _ me]) simp
qed

lemma digitChar_table:
  "digitChar 0 = CHR ''0''" "digitChar 1 = CHR ''1''" "digitChar 2 = CHR ''2''" "digitChar 3 = CHR ''3''"
  "digitChar 4 = CHR ''4''" "digitChar 5 = CHR ''5''" "digitChar 6 = CHR ''6''" "digitChar 7 = CHR ''7''"
  "digitChar 8 = CHR ''8''" "digitChar 9 = CHR ''9''" "digitChar (Suc 0) = CHR ''1''"
  by (simp_all add: digitChar_def char_of_def bit_Suc_0_iff)

lemma activeDates_props:
  "sorted (activeDates M yr)"
  "set (activeDates M yr) = {x \<in> set (map fst M). startsWith x (String yr)}"
  "distinct (map fst M) \<Longrightarrow> distinct (activeDates M yr)"
  by (simp_all add: activeDates_def)

lemma diffDays_one_nextDay:
  assumes "validDate a" "1000 \<le> fst a" "fst a \<le> 9999"
    and "validDate b" "1000 \<le> fst b" "fst b \<le> 9999"
  shows "diffDays env (formatDateKey a) (formatDateKey b) = Some 1 \<longleftrightarrow> b = nextDay a"
proof -
  have d: "diffDays env (formatDateKey a) (formatDateKey b) = Some (epochDay b - epochDay a)"
    by (rule diffDays_formatDateKey [OF assms])
  have n: "epochDay (nextDay a) = epochDay a + 1" by (rule epochDay_nextDay_any [OF assms(1)])
  show ?thesis
  proof
    assume "diffDays env (formatDateKey a) (formatDateKey b) = Some 1"
    with d n have "epochDay b = epochDay (nextDay a)" by simp
    then show "b = nextDay a"
      by (intro epochDay_inj [OF assms(4) validDate_nextDay [OF assms(1)]])
  next
    assume "b = nextDay a"
    with d n show "diffDays env (formatDateKey a) (formatDateKey b) = Some 1" by simp
  qed
qed

text \<open>
  C6. Let D be a calendar date of a four-digit year such that D+6 is in the same year,
  and let the keys of the daily-activity map M that start with that year be exactly
  D, D+1, D+2, D+5 and D+6, in any insertion order and among any keys of other years.
  For the year of D, \<open>calculateStreaks\<close> returns maxStreak 3 and the set of days
  D, D+1, D+2. In general, for any map and year: the active dates are the keys that
  start with the requested year, sorted ascending (and unique, as the keys of a map
  are); with no active date the result is 0 and the empty set; otherwise the result is
  a run of adjacent active dates, from an index s to an index e, in which every date is
  one day after the one before it by the test of the code, maxStreak is its length and
  maxStreakDays its dates; no such run is longer, and among the runs of that length it
  is the first. For keys that are date-only ISO strings of calendar days, the test of
  the code holds exactly when the second date is the day after the first.
\<close>

theorem streak_detection:
  assumes "validDate D" and "1000 \<le> fst D" and "fst D \<le> 9999" and "fst (plusDays D 6) = fst D"
    and "distinct (map fst M)"
    and "{x \<in> set (map fst M). startsWith x (String (fst D))}
       = formatDateKey ` {D, plusDays D 1, plusDays D 2, plusDays D 5, plusDays D 6}"
  shows "calculateStreaks env M (fst D) = (3, formatDateKey ` {D, plusDays D 1, plusDays D 2})
     \<and> sorted (activeDates M' yr)
     \<and> set (activeDates M' yr) = {x \<in> set (map fst M'). startsWith x (String yr)}
     \<and> (distinct (map fst M') \<longrightarrow> distinct (activeDates M' yr))
     \<and> (activeDates M' yr = [] \<longrightarrow> calculateStreaks env M' yr = (0, {}))
     \<and> (activeDates M' yr \<noteq> [] \<longrightarrow>
          (\<exists>s e. s \<le> e \<and> e < length (activeDates M' yr)
             \<and> calculateStreaks env M' yr = (e - s + 1, set (map (\<lambda>i. activeDates M' yr ! i) [s..<e + 1]))
             \<and> consecutiveDays env (activeDates M' yr) s e
             \<and> (\<forall>a b. b < length (activeDates M' yr) \<and> consecutiveDays env (activeDates M' yr) a b \<longrightarrow>
                    b - a + 1 \<le> e - s + 1 \<and> (b - a + 1 = e - s + 1 \<longrightarrow> s \<le> a))))
     \<and> (\<forall>a b. validDate a \<and> 1000 \<le> fst a \<and> fst a \<le> 9999 \<and> validDate b \<and> 1000 \<le> fst b \<and> fst b \<le> 9999 \<longrightarrow>
            (diffDays env (formatDateKey a) (formatDateKey b) = Some 1 \<longleftrightarrow> b = nextDay a))"
proof (intro conjI impI allI)
  show "calculateStreaks env M (fst D) = (3, formatDateKey ` {D, plusDays D 1, plusDays D 2})"
    by (rule five_day_streak [OF assms])
  show "sorted (activeDates M' yr)" by (rule activeDates_props)
  show "set (activeDates M' yr) = {x \<in> set (map fst M'). startsWith x (String yr)}"
    by (rule activeDates_props)
  show "distinct (activeDates M' yr)" if "distinct (map fst M')"
    using that by (rule activeDates_props)
  show "calculateStreaks env M' yr = (0, {})" if "activeDates M' yr = []"
    using that by (rule calculateStreaks_empty)
  show "\<exists>s e. s \<le> e \<and> e < length (activeDates M' yr)
             \<and> calculateStreaks env M' yr = (e - s + 1, set (map (\<lambda>i. activeDates M' yr ! i) [s..<e + 1]))
             \<and> consecutiveDays env (activeDates M' yr) s e
             \<and> (\<forall>a b. b < length (activeDates M' yr) \<and> consecutiveDays env (activeDates M' yr) a b \<longrightarrow>
                    b - a + 1 \<le> e - s + 1 \<and> (b - a + 1 = e - s + 1 \<longrightarrow> s \<le> a))"
    if "activeDates M' yr \<noteq> []"
    using that by (rule calculateStreaks_longest_run)
  show "diffDays env (formatDateKey a) (formatDateKey b) = Some 1 \<longleftrightarrow> b = nextDay a"
    if "validDate a \<and> 1000 \<le> fst a \<and> fst a \<le> 9999 \<and> validDate b \<and> 1000 \<le> fst b \<and> fst b \<le> 9999" for a b
    using that by (intro diffDays_one_nextDay) simp_all
qed

theorem streak_detection_witness:
  "validDate (2025, 2, 27) \<and> fst (plusDays (2025, 2, 27) 6) = 2025
   \<and> distinct (map fst fiveDays)
   \<and> activeDates fiveDays 2025 = [''2025-02-27'', ''2025-02-28'', ''2025-03-01'', ''2025-03-04'', ''2025-03-05'']
   \<and> calculateStreaks exampleEnv fiveDays 2025 = (3, {''2025-02-27'', ''2025-02-28'', ''2025-03-01''})
   \<and> calculateStreaks exampleEnv fiveDays 2024 = (4, {''2024-12-28'', ''2024-12-29'', ''2024-12-30'', ''2024-12-31''})
   \<and> calculateStreaks exampleEnv leapless 2025 = (3, {''2025-02-28'', ''2025-02-29'', ''2025-03-02''})"
proof -
  have p: "plusDays (2025, 2, 27) 1 = (2025, 2, 28)" "plusDays (2025, 2, 27) 2 = (2025, 3, 1)"
    "plusDays (2025, 2, 27) 5 = (2025, 3, 4)" "plusDays (2025, 2, 27) 6 = (2025, 3, 5)"
    by (simp_all add: plusDays_def eval_nat_numeral nextDay_def daysInMonth_def isLeap_def)
  have k: "formatDateKey (2025, 2, 27) = ''2025-02-27''"
    "formatDateKey (2025, 2, 28) = ''2025-02-28''"
    "formatDateKey (2025, 3, 1) = ''2025-03-01''"
    "formatDateKey (2025, 3, 4) = ''2025-03-04''"
    "formatDateKey (2025, 3, 5) = ''2025-03-05''"
    by (simp_all add: formatDateKey_digits digitChar_table)
  have v: "validDate (2025, 2, 27)" by (simp add: validDate_def daysInMonth_def isLeap_def)
  have y: "fst (plusDays (2025, 2, 27) 6) = fst (2025 :: int, 2 :: nat, 27 :: nat)" by (simp add: p)
  have y': "fst (plusDays (2025, 2, 27) 6) = 2025" using y by (simp only: fst_conv)
  have d: "distinct (map fst fiveDays)" by code_simp
  have a: "activeDates fiveDays 2025 =
      [''2025-02-27'', ''2025-02-28'', ''2025-03-01'', ''2025-03-04'', ''2025-03-05'']"
    by code_simp
  have "{x \<in> set (map fst fiveDays). startsWith x (String 2025)} = set (activeDates fiveDays 2025)"
    by (simp add: activeDates_def)
  also have "\<dots> = {''2025-02-27'', ''2025-02-28'', ''2025-03-01'', ''2025-03-04'', ''2025-03-05''}"
    by (simp only: a) simp
  finally have "{x \<in> set (map fst fiveDays). startsWith x (String 2025)} =
      {''2025-02-27'', ''2025-02-28'', ''2025-03-01'', ''2025-03-04'', ''2025-03-05''}" .
  then have s: "{x \<in> set (map fst fiveDays). startsWith x (String (fst (2025 :: int, 2 :: nat, 27 :: nat)))}
      = formatDateKey ` {(2025, 2, 27), plusDays (2025, 2, 27) 1, plusDays (2025, 2, 27) 2,
          plusDays (2025, 2, 27) 5, plusDays (2025, 2, 27) 6}"
    by (simp only: image_insert image_empty k p fst_conv)
  have r: "1000 \<le> fst (2025 :: int, 2 :: nat, 27 :: nat)" "fst (2025 :: int, 2 :: nat, 27 :: nat) \<le> 9999"
    by simp_all
  from streak_detection [OF v r y d s, of exampleEnv]
  have c: "calculateStreaks exampleEnv fiveDays 2025 = (3, {''2025-02-27'', ''2025-02-28'', ''2025-03-01''})"
    by (simp only: image_insert image_empty k p fst_conv)
  have c4: "calculateStreaks exampleEnv fiveDays 2024 =
      (4, {''2024-12-28'', ''2024-12-29'', ''2024-12-30'', ''2024-12-31''})"
    by code_simp
  have cl: "calculateStreaks exampleEnv leapless 2025 = (3, {''2025-02-28'', ''2025-02-29'', ''2025-03-02''})"
    by code_simp
  show ?thesis by (intro conjI) (rule v y' d a c c4 cl)+
qed

end
